theory Spec2Isabelle
  imports Main "HOL-Library.Sublist" "HOL-Library.AList" "HOL-Library.Char_ord"
    "HOL-Library.List_Lexorder"
begin

section \<open>Python strings\<close>

text \<open>
  A Python \<open>str\<close> is modelled as a \<open>string\<close> whose characters are the code points
  U+0000 .. U+00FF. On such strings \<open>needle in hay\<close> is \<open>sublist needle hay\<close>,
  \<open>hay.startswith(needle)\<close> is \<open>prefix needle hay\<close>, and the comparison of two
  strings (used by \<open>sorted\<close>) is the lexicographic order on code points.
\<close>

definition codepoint :: "char \<Rightarrow> nat" where
  "codepoint c = of_char c"

definition is_upper :: "char \<Rightarrow> bool" where
  "is_upper c = (65 \<le> codepoint c \<and> codepoint c \<le> 90)"

definition is_lower :: "char \<Rightarrow> bool" where
  "is_lower c = (97 \<le> codepoint c \<and> codepoint c \<le> 122)"

definition is_digit :: "char \<Rightarrow> bool" where
  "is_digit c = (48 \<le> codepoint c \<and> codepoint c \<le> 57)"

text \<open>\<open>str.lower()\<close>: A-Z, and the Latin-1 capitals U+00C0 .. U+00DE except U+00D7.\<close>

definition lower_char :: "char \<Rightarrow> char" where
  "lower_char c =
     (if is_upper c \<or> (192 \<le> codepoint c \<and> codepoint c \<le> 222 \<and> codepoint c \<noteq> 215)
      then char_of (codepoint c + 32) else c)"

definition str_lower :: "string \<Rightarrow> string" where
  "str_lower s = map lower_char s"

text \<open>The characters \<open>str.split()\<close> (no argument) treats as white space.\<close>

definition is_space :: "char \<Rightarrow> bool" where
  "is_space c =
     ((9 \<le> codepoint c \<and> codepoint c \<le> 13) \<or> (28 \<le> codepoint c \<and> codepoint c \<le> 32)
      \<or> codepoint c = 133 \<or> codepoint c = 160)"

text \<open>
  \<open>s.split()\<close>: the maximal runs of characters that are not white space, in order.
  \<open>split_from cur s\<close> scans \<open>s\<close> with \<open>cur\<close> the token read so far.
\<close>

fun split_from :: "string \<Rightarrow> string \<Rightarrow> string list" where
  "split_from cur [] = (if cur = [] then [] else [cur])"
| "split_from cur (c # cs) =
     (if is_space c then (if cur = [] then split_from [] cs else cur # split_from [] cs)
      else split_from (cur @ [c]) cs)"

definition str_split :: "string \<Rightarrow> string list" where
  "str_split s = split_from [] s"

text \<open>\<open>s.strip(chars)\<close>: drops, at both ends, the characters that occur in \<open>chars\<close>.\<close>

definition str_rstrip :: "string \<Rightarrow> string \<Rightarrow> string" where
  "str_rstrip chars s = rev (dropWhile (\<lambda>c. c \<in> set chars) (rev s))"

definition str_strip :: "string \<Rightarrow> string \<Rightarrow> string" where
  "str_strip chars s = str_rstrip chars (dropWhile (\<lambda>c. c \<in> set chars) s)"

section \<open>Geographic filter extraction\<close>

text \<open>
  \<open>_extract_geo_filters\<close> (lines 451-455) is
  \<^verbatim>\<open>re.findall(r"in ([A-Z][A-Za-z0-9_ -]+)", question)\<close> followed by \<open>strip(" ,.")\<close> on
  every match. The character class \<open>[A-Za-z0-9_ -]\<close> is \<open>geo_class\<close>.
\<close>

definition geo_class :: "char \<Rightarrow> bool" where
  "geo_class c =
     (is_upper c \<or> is_lower c \<or> is_digit c \<or> c = CHR ''_'' \<or> c = CHR '' '' \<or> c = CHR ''-'')"

text \<open>
  A match of the pattern at the very start of \<open>s\<close>: the literal \<open>in \<close>, one capital letter
  and one or more characters of the class, as many as there are (the \<open>+\<close> is greedy and
  nothing follows it in the pattern). The result is the captured group.
\<close>

definition geo_match :: "string \<Rightarrow> string option" where
  "geo_match s =
     (if take 3 s = ''in '' then
        (case drop 3 s of
           [] \<Rightarrow> None
         | u # v \<Rightarrow>
             if is_upper u \<and> takeWhile geo_class v \<noteq> []
             then Some (u # takeWhile geo_class v) else None)
      else None)"

text \<open>
  \<open>re.findall\<close> with one group: scan from the left; where the pattern matches, keep the
  group and resume right after the match (\<open>3 + length group\<close> characters further on);
  elsewhere move one character on.
\<close>

fun geo_findall :: "string \<Rightarrow> string list" where
  "geo_findall [] = []"
| "geo_findall (c # cs) =
     (case geo_match (c # cs) of
        Some grp \<Rightarrow> grp # geo_findall (drop (2 + length grp) cs)
      | None \<Rightarrow> geo_findall cs)"

definition extract_geo_filters :: "string \<Rightarrow> string list" where
  "extract_geo_filters question = map (str_strip '' ,.'') (geo_findall question)"

text \<open>
  What the pattern describes, independently of the scan: \<open>g\<close> occurs in \<open>q\<close> right after
  an \<open>in \<close>, is a capital letter followed by a non-empty run of class characters, and
  that run cannot be extended to the right.
\<close>

definition geo_occurrence :: "string \<Rightarrow> string \<Rightarrow> bool" where
  "geo_occurrence q g =
     (\<exists>pre u body post. q = pre @ ''in '' @ (u # body) @ post \<and> g = u # body \<and> is_upper u
        \<and> body \<noteq> [] \<and> (\<forall>c\<in>set body. geo_class c) \<and> (post = [] \<or> \<not> geo_class (hd post)))"

text \<open>
  The same occurrence together with its place: \<open>i\<close> is the index in \<open>q\<close> at which its
  \<open>in \<close> starts.
\<close>

definition geo_occurrence_at :: "string \<Rightarrow> nat \<Rightarrow> string \<Rightarrow> bool" where
  "geo_occurrence_at q i g =
     (\<exists>pre u body post. q = pre @ ''in '' @ (u # body) @ post \<and> length pre = i \<and> g = u # body
        \<and> is_upper u \<and> body \<noteq> [] \<and> (\<forall>c\<in>set body. geo_class c)
        \<and> (post = [] \<or> \<not> geo_class (hd post)))"

text \<open>
  \<open>re.findall\<close> returns the groups of the matches that \<open>re.finditer\<close> enumerates;
  \<open>geo_finditer n s\<close> is \<open>geo_findall s\<close> with the start of every match, \<open>n\<close> being the
  index of \<open>s\<close> in the question.
\<close>

fun geo_finditer :: "nat \<Rightarrow> string \<Rightarrow> (nat \<times> string) list" where
  "geo_finditer n [] = []"
| "geo_finditer n (c # cs) =
     (case geo_match (c # cs) of
        Some grp \<Rightarrow> (n, grp) # geo_finditer (n + 3 + length grp) (drop (2 + length grp) cs)
      | None \<Rightarrow> geo_finditer (Suc n) cs)"

text \<open>
  The matches a scan that starts at index \<open>n\<close> reports, described without the scan:
  \<open>ps\<close> lists occurrences with their places, each one starting at or after the end of
  the one before it, and every occurrence of the question from \<open>n\<close> on is in the list
  or starts inside a listed one. A listed match at \<open>i\<close> with group \<open>g\<close> covers the
  indices from \<open>i\<close> up to \<open>i + 3 + length g\<close> (excluded).
\<close>

definition geo_reported :: "nat \<Rightarrow> string \<Rightarrow> (nat \<times> string) list \<Rightarrow> bool" where
  "geo_reported n q ps =
     ((\<forall>a\<in>set ps. n \<le> fst a \<and> geo_occurrence_at q (fst a) (snd a))
      \<and> sorted_wrt (\<lambda>a b. fst a + 3 + length (snd a) \<le> fst b) ps
      \<and> (\<forall>j h. n \<le> j \<and> geo_occurrence_at q j h \<longrightarrow>
             (j, h) \<in> set ps \<or> (\<exists>a\<in>set ps. fst a < j \<and> j < fst a + 3 + length (snd a))))"

section \<open>Values, tool descriptors and results\<close>

text \<open>
  A value of type \<open>Any\<close>: what JSON can carry. A float is never computed with in the
  modelled code, only stored and passed on, so it is kept as its \<open>repr\<close>. A nested
  dictionary is an association list in insertion order.
\<close>

datatype pyval =
    PNone
  | PBool bool
  | PInt int
  | PFloat string
  | PStr string
  | PList "pyval list"
  | PDict "(string \<times> pyval) list"

text \<open>
  An argument dictionary (\<open>Dict[str, Any]\<close>) is a map: \<open>d.update(e)\<close> is \<open>d ++ e\<close>,
  \<open>k in d\<close> is \<open>k \<in> dom d\<close>, and two dictionaries are equal when they hold the same
  entries. A tool result is a list of content items, each a dictionary.
\<close>

type_synonym args = "string \<rightharpoonup> pyval"

type_synonym item = "(string \<times> pyval) list"

type_synonym content = "item list"

text \<open>
  Exceptions. \<open>PyException msg\<close> is an instance of any other subclass of \<open>Exception\<close>
  (what \<open>except Exception\<close> catches) whose \<open>str()\<close> is \<open>msg\<close>.
\<close>

datatype pyerror =
    GraphAnalyticsAgentError string
  | ValueError string
  | PyException string

fun exc_str :: "pyerror \<Rightarrow> string" where
  "exc_str (GraphAnalyticsAgentError msg) = msg"
| "exc_str (ValueError msg) = msg"
| "exc_str (PyException msg) = msg"

type_synonym summarizer = "content \<Rightarrow> pyerror + pyval"

text \<open>The field \<open>keywords\<close> is \<open>keyword_list\<close> here.\<close>

record ToolConfig =
  name :: string
  description :: string
  keyword_list :: "string list"
  defaults :: args
  summary_builder :: "summarizer option"

record GraphAnalyticsResult =
  tool_name :: string
  inputs :: args
  raw_result :: content
  summary :: pyval

text \<open>
  The agent. \<open>_tool_configs\<close> is a \<open>dict\<close>, which keeps its keys in insertion order:
  an association list with distinct keys, written to with \<open>AList.update\<close> (a key that
  is already there keeps its place and takes the new value). The client cache, its
  lock, the model name and the metadata cache play no part in what follows.
\<close>

record GraphAnalyticsAgent =
  tool_configs :: "(string \<times> ToolConfig) list"
  default_identifier_property :: string
  allowed_tool_names :: "string set"
  use_llm_selector :: bool

section \<open>Construction\<close>

text \<open>
  \<open>_build_default_configs\<close> (lines 481-511). The four module-level summarizers
  \<open>_summarize_rankings\<close>, \<open>_summarize_leiden\<close>, \<open>_summarize_bridges\<close> and
  \<open>_summarize_text_result\<close> are parameters.
\<close>

definition build_default_configs ::
  "summarizer \<Rightarrow> summarizer \<Rightarrow> summarizer \<Rightarrow> summarizer \<Rightarrow> ToolConfig list" where
  "build_default_configs summarize_rankings summarize_leiden summarize_bridges
       summarize_text_result =
     [\<lparr>name = ''article_rank'',
       description = ''Ranks nodes by influence using ArticleRank (PageRank variant).'',
       keyword_list = [''influencer'', ''important'', ''central'', ''rank'', ''pagerank''],
       defaults = [''maxIterations'' \<mapsto> PInt 20, ''tolerance'' \<mapsto> PFloat ''0.0001''],
       summary_builder = Some summarize_rankings\<rparr>,
      \<lparr>name = ''leiden'',
       description = ''Community detection using the Leiden algorithm.'',
       keyword_list = [''community'', ''cluster'', ''group'', ''modularity''],
       defaults = [''minCommunitySize'' \<mapsto> PInt 5, ''tolerance'' \<mapsto> PFloat ''0.0001''],
       summary_builder = Some summarize_leiden\<rparr>,
      \<lparr>name = ''bridges'',
       description = ''Detects bridge edges connecting graph components.'',
       keyword_list = [''bridge'', ''bottleneck'', ''critical connection'', ''cut edge''],
       defaults = Map.empty,
       summary_builder = Some summarize_bridges\<rparr>,
      \<lparr>name = ''count_nodes'',
       description = ''Counts nodes per label.'',
       keyword_list = [''count nodes'', ''size'', ''how many nodes'', ''dataset size''],
       defaults = Map.empty,
       summary_builder = Some summarize_text_result\<rparr>]"

text \<open>The dict comprehension \<open>{config.name: config for config in configs}\<close> (line 70).\<close>

definition dict_by_name :: "ToolConfig list \<Rightarrow> (string \<times> ToolConfig) list" where
  "dict_by_name configs = foldl (\<lambda>d config. AList.update (name config) config d) [] configs"

text \<open>
  Lines 67-69: the supplied list, or the built-in one when \<open>tool_configs is None\<close>,
  filtered by the allow-list when that set is not empty. \<open>builtin\<close> is the value of
  \<open>self._build_default_configs()\<close>.
\<close>

definition effective_configs ::
  "ToolConfig list \<Rightarrow> ToolConfig list option \<Rightarrow> string list option \<Rightarrow> ToolConfig list" where
  "effective_configs builtin tool_configs_arg allowed_arg =
     (let allowed = set (case allowed_arg of None \<Rightarrow> [] | Some names \<Rightarrow> names);
          configs = (case tool_configs_arg of Some cs \<Rightarrow> cs | None \<Rightarrow> builtin)
      in if allowed \<noteq> {} then filter (\<lambda>cfg. name cfg \<in> allowed) configs else configs)"

text \<open>\<open>__init__\<close> (lines 47-76).\<close>

definition init ::
  "ToolConfig list \<Rightarrow> ToolConfig list option \<Rightarrow> string \<Rightarrow> string list option \<Rightarrow> bool
     \<Rightarrow> pyerror + GraphAnalyticsAgent" where
  "init builtin tool_configs_arg identifier_property allowed_arg llm_selector =
     (let registry = dict_by_name (effective_configs builtin tool_configs_arg allowed_arg)
      in if registry = [] then Inl (ValueError ''No graph analytics tools configured or allowed.'')
         else Inr \<lparr>tool_configs = registry,
                   default_identifier_property = identifier_property,
                   allowed_tool_names = set (case allowed_arg of None \<Rightarrow> [] | Some names \<Rightarrow> names),
                   use_llm_selector = llm_selector\<rparr>)"

text \<open>\<open>list_tools\<close> (lines 149-151): the values of the registry, in its order.\<close>

definition list_tools :: "GraphAnalyticsAgent \<Rightarrow> ToolConfig list" where
  "list_tools agent = map snd (tool_configs agent)"

section \<open>Keyword matching\<close>

text \<open>
  \<open>_infer_tool\<close> (lines 223-250). For one keyword, lines 237-247: the direct test on
  the whole normalized question, then the two tests on each of its tokens.
\<close>

definition keyword_matches :: "string \<Rightarrow> string \<Rightarrow> bool" where
  "keyword_matches normalized kw =
     (let kw_lower = str_lower kw
      in sublist kw_lower normalized
         \<or> list_ex (\<lambda>word. sublist kw_lower word \<or> prefix kw_lower word) (str_split normalized))"

text \<open>The two loops: the first config, in registry order, one of whose keyword_list matches.\<close>

fun first_match :: "string \<Rightarrow> ToolConfig list \<Rightarrow> string option" where
  "first_match normalized [] = None"
| "first_match normalized (config # rest) =
     (if list_ex (keyword_matches normalized) (keyword_list config) then Some (name config)
      else first_match normalized rest)"

definition infer_tool :: "GraphAnalyticsAgent \<Rightarrow> string \<Rightarrow> string option" where
  "infer_tool agent question = first_match (str_lower question) (list_tools agent)"

text \<open>
  The single rule the three tests are compared with: the lower-cased keyword is a
  substring of the lower-cased question.
\<close>

definition substring_rule :: "string \<Rightarrow> string \<Rightarrow> bool" where
  "substring_rule question kw = sublist (str_lower kw) (str_lower question)"

section \<open>Argument synthesis\<close>

text \<open>\<open>d.setdefault(k, v)\<close>: writes only when the key is absent.\<close>

definition setdefault :: "args \<Rightarrow> string \<Rightarrow> pyval \<Rightarrow> args" where
  "setdefault d k v = (if k \<in> dom d then d else d(k \<mapsto> v))"

text \<open>\<open>_prepare_inputs\<close> (lines 429-449).\<close>

definition prepare_inputs ::
  "GraphAnalyticsAgent \<Rightarrow> ToolConfig \<Rightarrow> string \<Rightarrow> args option \<Rightarrow> args" where
  "prepare_inputs agent config question overrides =
     (let inputs0 = defaults config;
          inputs1 = (if ''nodeIdentifierProperty'' \<notin> dom inputs0
                     then inputs0(''nodeIdentifierProperty'' \<mapsto>
                            PStr (default_identifier_property agent))
                     else inputs0);
          geos = extract_geo_filters question;
          inputs2 = (if geos \<noteq> []
                     then setdefault
                            (setdefault inputs1 ''nodeLabels''
                               (PList [PStr ''Area'', PStr ''Municipality'']))
                            ''filterNames'' (PList (map PStr geos))
                     else inputs1)
      in case overrides of
           None \<Rightarrow> inputs2
         | Some ov \<Rightarrow> if ov \<noteq> Map.empty then inputs2 ++ ov else inputs2)"

text \<open>
  Lines 126-128 of \<open>run\<close>: a copy of the selector's inputs, updated with the caller's
  inputs when these are given and not empty.
\<close>

definition combined_inputs :: "args \<Rightarrow> args option \<Rightarrow> args" where
  "combined_inputs llm_suggested_inputs inputs_arg =
     (case inputs_arg of
        None \<Rightarrow> llm_suggested_inputs
      | Some given \<Rightarrow>
          if given \<noteq> Map.empty then llm_suggested_inputs ++ given else llm_suggested_inputs)"

section \<open>Summaries\<close>

text \<open>\<open>str(n)\<close> for a natural number: its decimal digits.\<close>

fun str_of_nat :: "nat \<Rightarrow> string" where
  "str_of_nat n =
     (if n < 10 then [char_of (48 + n)]
      else str_of_nat (n div 10) @ [char_of (48 + n mod 10)])"

declare str_of_nat.simps [simp del]

definition apostrophe :: string where
  "apostrophe = [CHR 0x27]"

text \<open>
  The generic summary, lines 469-479 of \<open>_build_summary\<close>. \<open>json_dumps\<close> is the
  library's \<open>json.dumps(_, ensure_ascii=False)\<close>; it is applied to \<open>content[:1]\<close>.
\<close>

definition default_summary :: "(pyval \<Rightarrow> string) \<Rightarrow> ToolConfig \<Rightarrow> content \<Rightarrow> pyval" where
  "default_summary json_dumps config content =
     (case content of
        [] \<Rightarrow> PStr (''Tool '' @ apostrophe @ name config @ apostrophe @ '' returned no results.'')
      | first # rest \<Rightarrow>
          (case (rest, map_of first ''text'') of
             ([], Some text_value) \<Rightarrow> text_value
           | _ \<Rightarrow>
               PStr (''Tool '' @ apostrophe @ name config @ apostrophe @ '' returned ''
                     @ str_of_nat (length content) @ '' rows. First entry: ''
                     @ json_dumps (PList (map PDict (take 1 content))))))"

text \<open>
  \<open>_build_summary\<close> (lines 457-479): the dedicated summarizer when there is one and it
  returns; the generic summary when there is none or it raises.
\<close>

definition build_summary ::
  "(pyval \<Rightarrow> string) \<Rightarrow> ToolConfig \<Rightarrow> content \<Rightarrow> string \<Rightarrow> pyval" where
  "build_summary json_dumps config content question =
     (case summary_builder config of
        Some builder \<Rightarrow>
          (case builder content of
             Inr text_value \<Rightarrow> text_value
           | Inl exc \<Rightarrow> default_summary json_dumps config content)
      | None \<Rightarrow> default_summary json_dumps config content)"

section \<open>The router\<close>

text \<open>
  What \<open>run\<close> consults outside the modelled code: the outcome of
  \<open>_select_tool_with_llm\<close> (which returns \<open>None\<close> or a dictionary with the keys
  \<open>tool\<close>, a registry key, \<open>inputs\<close>, a dictionary, and \<open>reason\<close>), the outcome of
  \<open>_get_client\<close>, the client's \<open>call_tool\<close>, and \<open>json.dumps\<close>.
\<close>

record selection =
  sel_tool :: string
  sel_inputs :: args
  sel_reason :: pyval

record mcp_client =
  call_tool :: "string \<Rightarrow> args \<Rightarrow> pyerror + content"

record collaborators =
  select_tool_with_llm :: "string \<Rightarrow> selection option"
  get_client :: "pyerror + mcp_client"
  json_dumps :: "pyval \<Rightarrow> string"

text \<open>The calls \<open>run\<close> makes, in the order it makes them.\<close>

datatype event =
    EvSelectToolWithLLM string
  | EvInferTool string
  | EvGetClient
  | EvCallTool string args

fun is_call_tool :: "event \<Rightarrow> bool" where
  "is_call_tool (EvCallTool t a) = True"
| "is_call_tool e = False"

fun is_infer_tool :: "event \<Rightarrow> bool" where
  "is_infer_tool (EvInferTool q) = True"
| "is_infer_tool e = False"

text \<open>
  Lines 98-120 of \<open>run\<close>: the tool name and the selector's inputs, or the error raised.
\<close>

definition select_tool ::
  "GraphAnalyticsAgent \<Rightarrow> collaborators \<Rightarrow> string \<Rightarrow> string option
     \<Rightarrow> event list \<times> (pyerror + string \<times> args)" where
  "select_tool agent env question tool_name_arg =
     (let (log, tool_name_opt, llm_suggested_inputs) =
            (if tool_name_arg = None \<and> use_llm_selector agent then
               (case select_tool_with_llm env question of
                  Some sel \<Rightarrow> ([EvSelectToolWithLLM question], Some (sel_tool sel), sel_inputs sel)
                | None \<Rightarrow> ([EvSelectToolWithLLM question], None, Map.empty))
             else ([], tool_name_arg, Map.empty))
      in case tool_name_opt of
           Some t \<Rightarrow> (log, Inr (t, llm_suggested_inputs))
         | None \<Rightarrow>
             if use_llm_selector agent then
               (log, Inl (GraphAnalyticsAgentError
                  (''Could not infer a graph analytics tool for this question. ''
                   @ ''The LLM tool selector did not find a suitable tool.'')))
             else
               (case infer_tool agent question of
                  Some t \<Rightarrow> (log @ [EvInferTool question], Inr (t, llm_suggested_inputs))
                | None \<Rightarrow>
                    (log @ [EvInferTool question],
                     Inl (GraphAnalyticsAgentError
                       ''Could not infer a graph analytics tool for this question.''))))"

text \<open>\<open>run\<close> (lines 91-147): the calls made and the result returned or the error raised.\<close>

definition run ::
  "GraphAnalyticsAgent \<Rightarrow> collaborators \<Rightarrow> string \<Rightarrow> string option \<Rightarrow> args option
     \<Rightarrow> event list \<times> (pyerror + GraphAnalyticsResult)" where
  "run agent env question tool_name_arg inputs_arg =
     (case select_tool agent env question tool_name_arg of
        (log, Inl err) \<Rightarrow> (log, Inl err)
      | (log, Inr (t, llm_suggested_inputs)) \<Rightarrow>
          (case map_of (tool_configs agent) t of
             None \<Rightarrow> (log, Inl (GraphAnalyticsAgentError (''Unsupported tool: '' @ t)))
           | Some config \<Rightarrow>
               (let prepared_inputs =
                      prepare_inputs agent config question
                        (Some (combined_inputs llm_suggested_inputs inputs_arg))
                in case get_client env of
                     Inl err \<Rightarrow> (log @ [EvGetClient], Inl err)
                   | Inr client \<Rightarrow>
                       (case call_tool client t prepared_inputs of
                          Inl exc \<Rightarrow>
                            (log @ [EvGetClient, EvCallTool t prepared_inputs],
                             Inl (GraphAnalyticsAgentError
                               (''Tool call failed for '' @ apostrophe @ t @ apostrophe @ '': ''
                                @ exc_str exc)))
                        | Inr result_content \<Rightarrow>
                            (log @ [EvGetClient, EvCallTool t prepared_inputs],
                             Inr \<lparr>tool_name = t,
                                  inputs = prepared_inputs,
                                  raw_result = result_content,
                                  summary = build_summary (json_dumps env) config
                                              result_content question\<rparr>)))))"

section \<open>Schema digest\<close>

text \<open>\<open>s.split(sep)\<close> for a one-character separator: never empty, empty pieces kept.\<close>

fun split_on :: "char \<Rightarrow> string \<Rightarrow> string list" where
  "split_on sep [] = [[]]"
| "split_on sep (c # cs) =
     (if c = sep then [] # split_on sep cs
      else (case split_on sep cs of
              piece # pieces \<Rightarrow> (c # piece) # pieces
            | [] \<Rightarrow> [[c]]))"

text \<open>\<open>sep.join(parts)\<close>.\<close>

fun join :: "string \<Rightarrow> string list \<Rightarrow> string" where
  "join sep [] = []"
| "join sep [x] = x"
| "join sep (x # y # ys) = x @ sep @ join sep (y # ys)"

text \<open>\<open>s.strip()\<close>: white space dropped at both ends.\<close>

definition strip_ws :: "string \<Rightarrow> string" where
  "strip_ws s = rev (dropWhile is_space (rev (dropWhile is_space s)))"

definition newline :: string where
  "newline = [CHR 0x0A]"

text \<open>The loop variables of \<open>_summarize_schema_for_tool_selection\<close> (lines 173-179).\<close>

record scan_state =
  in_node_props :: bool
  in_rel_props :: bool
  in_rels :: bool
  node_labels :: "string list"
  rel_types :: "string list"
  relationships :: "string list"

definition initial_scan :: scan_state where
  "initial_scan =
     \<lparr>in_node_props = False, in_rel_props = False, in_rels = False,
      node_labels = [], rel_types = [], relationships = []\<rparr>"

text \<open>\<open>line.split('`')[1] if '`' in line else None\<close>.\<close>

definition backtick_name :: "string \<Rightarrow> string option" where
  "backtick_name line =
     (if CHR 0x60 \<in> set line then Some (split_on (CHR 0x60) line ! 1) else None)"

text \<open>One iteration of the loop (lines 181-210).\<close>

definition scan_line :: "scan_state \<Rightarrow> string \<Rightarrow> scan_state" where
  "scan_line st line =
     (if sublist ''Node properties:'' line then
        st\<lparr>in_node_props := True, in_rel_props := False, in_rels := False\<rparr>
      else if sublist ''Relationship properties:'' line then
        st\<lparr>in_node_props := False, in_rel_props := True, in_rels := False\<rparr>
      else if sublist ''The relationships:'' line then
        st\<lparr>in_node_props := False, in_rel_props := False, in_rels := True\<rparr>
      else if in_node_props st \<and> prefix [CHR '':'', CHR 0x60] (strip_ws line) then
        (case backtick_name line of
           Some label \<Rightarrow> if label \<noteq> [] then st\<lparr>node_labels := node_labels st @ [label]\<rparr> else st
         | None \<Rightarrow> st)
      else if in_rel_props st \<and> prefix [CHR '':'', CHR 0x60] (strip_ws line) then
        (case backtick_name line of
           Some rel_type \<Rightarrow>
             if rel_type \<noteq> [] then st\<lparr>rel_types := rel_types st @ [rel_type]\<rparr> else st
         | None \<Rightarrow> st)
      else if in_rels st \<and> sublist '')-[:'' line then
        st\<lparr>relationships := relationships st @ [strip_ws line]\<rparr>
      else st)"

text \<open>Lines 213-221: the parts of the digest, from the three lists.\<close>

definition summary_parts :: "scan_state \<Rightarrow> string list" where
  "summary_parts st =
     (if node_labels st \<noteq> []
      then [''Node labels: '' @ join '', '' (sort (remdups (node_labels st)))] else [])
     @ (if rel_types st \<noteq> []
        then [''Relationship types: '' @ join '', '' (sort (remdups (rel_types st)))] else [])
     @ (if relationships st \<noteq> []
        then [''Key relationships:'' @ newline @ join newline (take 10 (relationships st))]
        else [])"

text \<open>\<open>_summarize_schema_for_tool_selection\<close> (lines 153-221).\<close>

definition summarize_schema_for_tool_selection :: "string \<Rightarrow> string" where
  "summarize_schema_for_tool_selection full_schema =
     (if full_schema = [] \<or> full_schema = ''Graph schema not available.'' then full_schema
      else
        (let st = foldl scan_line initial_scan (split_on (CHR 0x0A) full_schema);
             parts = summary_parts st
         in if parts \<noteq> [] then join newline parts
            else ''Graph schema summary not available.''))"

text \<open>
  The three header lines the loop recognizes, and the test "the line holds one of them".
\<close>

definition section_headers :: "string list" where
  "section_headers = [''Node properties:'', ''Relationship properties:'', ''The relationships:'']"

definition has_header :: "string \<Rightarrow> bool" where
  "has_header line = list_ex (\<lambda>h. sublist h line) section_headers"

text \<open>
  For the proofs: a line is clean when it has no line break and none of the three
  headers, and a loop state is clean when every collected string is.
\<close>

definition clean :: "string \<Rightarrow> bool" where
  "clean l = (CHR 0x0A \<notin> set l \<and> \<not> has_header l)"

definition clean_state :: "scan_state \<Rightarrow> bool" where
  "clean_state st =
     ((\<forall>l\<in>set (node_labels st). clean l) \<and> (\<forall>l\<in>set (rel_types st). clean l)
      \<and> (\<forall>l\<in>set (relationships st). clean l))"

section \<open>Dictionaries as objects\<close>

text \<open>
  To follow which dictionary a statement writes to, dictionaries are objects in a store:
  an address holds the entries of one \<open>dict\<close>, and a variable or a field such as
  \<open>config.defaults\<close> holds an address. \<open>next_addr\<close> is the address the next new object
  gets. The values stored under the keys are never written to by the modelled code.
\<close>

type_synonym addr = nat

record store =
  cells :: "addr \<rightharpoonup> args"
  next_addr :: addr

text \<open>Every object of the store lies below the next address.\<close>

definition store_ok :: "store \<Rightarrow> bool" where
  "store_ok st = (\<forall>a\<in>dom (cells st). a < next_addr st)"

definition deref :: "store \<Rightarrow> addr \<Rightarrow> args" where
  "deref st a = (case cells st a of Some d \<Rightarrow> d | None \<Rightarrow> Map.empty)"

text \<open>A new dictionary with the given entries: the literal \<open>{}\<close>, and \<open>dict(d)\<close>.\<close>

definition dict_new :: "args \<Rightarrow> store \<Rightarrow> addr \<times> store" where
  "dict_new entries st =
     (next_addr st,
      st\<lparr>cells := (cells st)(next_addr st \<mapsto> entries), next_addr := Suc (next_addr st)\<rparr>)"

definition dict_copy :: "addr \<Rightarrow> store \<Rightarrow> addr \<times> store" where
  "dict_copy a st = dict_new (deref st a) st"

text \<open>\<open>a.update(b)\<close>, \<open>a[k] = v\<close> and \<open>a.setdefault(k, v)\<close>: they write to \<open>a\<close>.\<close>

definition dict_update :: "addr \<Rightarrow> addr \<Rightarrow> store \<Rightarrow> store" where
  "dict_update a b st = st\<lparr>cells := (cells st)(a \<mapsto> deref st a ++ deref st b)\<rparr>"

definition dict_setitem :: "addr \<Rightarrow> string \<Rightarrow> pyval \<Rightarrow> store \<Rightarrow> store" where
  "dict_setitem a k v st = st\<lparr>cells := (cells st)(a \<mapsto> (deref st a)(k \<mapsto> v))\<rparr>"

definition dict_setdefault :: "addr \<Rightarrow> string \<Rightarrow> pyval \<Rightarrow> store \<Rightarrow> store" where
  "dict_setdefault a k v st = (if k \<in> dom (deref st a) then st else dict_setitem a k v st)"

text \<open>The store \<open>st\<close> with a new object \<open>e\<close> at its next address.\<close>

definition alloc :: "store \<Rightarrow> args \<Rightarrow> store" where
  "alloc st e = st\<lparr>cells := (cells st)(next_addr st \<mapsto> e), next_addr := Suc (next_addr st)\<rparr>"

text \<open>
  \<open>_prepare_inputs\<close> (lines 429-449) on the store: \<open>defaults_ref\<close> is the address held by
  \<open>config.defaults\<close>, \<open>overrides\<close> the address passed; the result is the address of the
  dictionary returned.
\<close>

definition prepare_inputs_store ::
  "GraphAnalyticsAgent \<Rightarrow> addr \<Rightarrow> string \<Rightarrow> addr option \<Rightarrow> store \<Rightarrow> addr \<times> store" where
  "prepare_inputs_store agent defaults_ref question overrides st =
     (let (inputs_ref, st1) = dict_copy defaults_ref st;
          st2 = (if ''nodeIdentifierProperty'' \<notin> dom (deref st1 inputs_ref)
                 then dict_setitem inputs_ref ''nodeIdentifierProperty''
                        (PStr (default_identifier_property agent)) st1
                 else st1);
          geos = extract_geo_filters question;
          st3 = (if geos \<noteq> []
                 then dict_setdefault inputs_ref ''filterNames'' (PList (map PStr geos))
                        (dict_setdefault inputs_ref ''nodeLabels''
                           (PList [PStr ''Area'', PStr ''Municipality'']) st2)
                 else st2);
          st4 = (case overrides of
                   None \<Rightarrow> st3
                 | Some ov \<Rightarrow> if deref st3 ov \<noteq> Map.empty then dict_update inputs_ref ov st3
                              else st3)
      in (inputs_ref, st4))"

text \<open>
  The statements of \<open>run\<close> that create or write dictionaries: line 98 (the empty
  \<open>llm_suggested_inputs\<close>), line 103 (it becomes the selection's \<open>inputs\<close> when there is a
  selection, here \<open>selection_inputs\<close>), lines 126-128 (the copy, updated with the caller's
  \<open>inputs\<close>) and line 130 (the call of \<open>_prepare_inputs\<close>). A call of \<open>run\<close> that raises
  before line 126 has executed at most the first of them.
\<close>

definition run_inputs_store ::
  "GraphAnalyticsAgent \<Rightarrow> addr \<Rightarrow> string \<Rightarrow> addr option \<Rightarrow> addr option \<Rightarrow> store
     \<Rightarrow> addr \<times> store" where
  "run_inputs_store agent defaults_ref question selection_inputs inputs_arg st =
     (let (empty_ref, st0) = dict_new Map.empty st;
          llm_suggested_inputs = (case selection_inputs of Some r \<Rightarrow> r | None \<Rightarrow> empty_ref);
          (combined, st1) = dict_copy llm_suggested_inputs st0;
          st2 = (case inputs_arg of
                   None \<Rightarrow> st1
                 | Some given \<Rightarrow> if deref st1 given \<noteq> Map.empty
                                 then dict_update combined given st1 else st1)
      in prepare_inputs_store agent defaults_ref question (Some combined) st2)"

section \<open>Geographic extraction: proofs\<close>

lemma geo_occurrenceI:
  assumes "q = pre @ ''in '' @ (u # body) @ post" "is_upper u" "body \<noteq> []"
    "\<forall>c\<in>set body. geo_class c" "post = [] \<or> \<not> geo_class (hd post)"
  shows "geo_occurrence q (u # body)"
  unfolding geo_occurrence_def
  apply (rule exI [where x = pre])
  apply (rule exI [where x = u])
  apply (rule exI [where x = body])
  apply (rule exI [where x = post])
  using assms apply (intro conjI)
       apply (assumption | rule refl)+
  done

lemma geo_occurrenceE:
  assumes "geo_occurrence q g"
  obtains pre u body post where "q = pre @ ''in '' @ (u # body) @ post" "g = u # body" "is_upper u"
    "body \<noteq> []" "\<forall>c\<in>set body. geo_class c" "post = [] \<or> \<not> geo_class (hd post)"
  using assms unfolding geo_occurrence_def by (elim exE conjE)

lemma dropWhile_stops: "dropWhile P v = [] \<or> \<not> P (hd (dropWhile P v))"
  by (induction v) simp_all

lemma geo_match_occurrence:
  assumes "geo_match s = Some g"
  shows "geo_occurrence s g"
proof -
  from assms have t: "take 3 s = ''in ''"
    unfolding geo_match_def by (simp split: if_splits)
  from assms t obtain u v where d: "drop 3 s = u # v" and u: "is_upper u"
    and ne: "takeWhile geo_class v \<noteq> []" and g: "g = u # takeWhile geo_class v"
    unfolding geo_match_def by (simp split: if_splits list.splits)
  have "take 3 s @ drop 3 s = ''in '' @ (u # takeWhile geo_class v) @ dropWhile geo_class v"
    unfolding t d by simp
  then have "s = ''in '' @ (u # takeWhile geo_class v) @ dropWhile geo_class v"
    by (simp only: append_take_drop_id)
  then have s: "s = [] @ ''in '' @ (u # takeWhile geo_class v) @ dropWhile geo_class v"
    by (simp only: append_Nil)
  have cls: "\<forall>c\<in>set (takeWhile geo_class v). geo_class c"
    by (auto dest: set_takeWhileD)
  show ?thesis
    unfolding g by (rule geo_occurrenceI [OF s u ne cls dropWhile_stops])
qed

lemma geo_occurrence_drop:
  assumes "geo_occurrence (drop n q) g"
  shows "geo_occurrence q g"
proof -
  from assms obtain pre u body post where d: "drop n q = pre @ ''in '' @ (u # body) @ post"
    and g: "g = u # body" and r: "is_upper u" "body \<noteq> []" "\<forall>c\<in>set body. geo_class c"
      "post = [] \<or> \<not> geo_class (hd post)"
    by (rule geo_occurrenceE)
  have "take n q @ drop n q = (take n q @ pre) @ ''in '' @ (u # body) @ post"
    unfolding d by (simp only: append_assoc)
  then have "q = (take n q @ pre) @ ''in '' @ (u # body) @ post"
    by (simp only: append_take_drop_id)
  then show ?thesis unfolding g using r by (rule geo_occurrenceI)
qed

lemma geo_occurrence_Cons: "geo_occurrence q g \<Longrightarrow> geo_occurrence (c # q) g"
  using geo_occurrence_drop [of "Suc 0" "c # q" g] by simp

lemma geo_findall_sound:
  "g \<in> set (geo_findall q) \<Longrightarrow> geo_occurrence q g"
proof (induction q rule: geo_findall.induct)
  case 1
  then show ?case by simp
next
  case (2 c cs)
  show ?case
  proof (cases "geo_match (c # cs)")
    case None
    with 2 have "geo_occurrence cs g" by simp
    then show ?thesis by (rule geo_occurrence_Cons)
  next
    case (Some a)
    with "2.prems" have "g = a \<or> g \<in> set (geo_findall (drop (2 + length a) cs))" by simp
    then show ?thesis
    proof
      assume "g = a"
      with Some have "geo_match (c # cs) = Some g" by simp
      then show ?thesis by (rule geo_match_occurrence)
    next
      assume "g \<in> set (geo_findall (drop (2 + length a) cs))"
      with "2.IH"(2)[OF Some] have "geo_occurrence (drop (2 + length a) cs) g" by simp
      then have "geo_occurrence cs g" by (rule geo_occurrence_drop)
      then show ?thesis by (rule geo_occurrence_Cons)
    qed
  qed
qed

lemma geo_match_complete:
  assumes "is_upper u" "body \<noteq> []" "\<forall>c\<in>set body. geo_class c"
  shows "geo_match (''in '' @ (u # body) @ post) \<noteq> None"
proof -
  from assms(2) obtain r rs where body: "body = r # rs" by (cases body) simp_all
  with assms(3) have "geo_class r" by simp
  then have "takeWhile geo_class (body @ post) \<noteq> []" unfolding body by simp
  with assms(1) show ?thesis unfolding geo_match_def by simp
qed

lemma geo_findall_complete:
  "geo_occurrence q g \<Longrightarrow> geo_findall q \<noteq> []"
proof (induction q rule: geo_findall.induct)
  case 1
  then obtain pre u body post where "[] = pre @ ''in '' @ (u # body) @ post"
    by (rule geo_occurrenceE)
  then show ?case by simp
next
  case (2 c cs)
  show ?case
  proof (cases "geo_match (c # cs)")
    case (Some a)
    then show ?thesis by simp
  next
    case None
    from "2.prems" obtain pre u body post where q: "c # cs = pre @ ''in '' @ (u # body) @ post"
      and g: "g = u # body" and r: "is_upper u" "body \<noteq> []" "\<forall>c\<in>set body. geo_class c"
        "post = [] \<or> \<not> geo_class (hd post)"
      by (rule geo_occurrenceE)
    have "pre \<noteq> []"
    proof
      assume "pre = []"
      with q have "geo_match (c # cs) = geo_match (''in '' @ (u # body) @ post)" by simp
      with geo_match_complete [OF r(1,2,3), of post] None show False by simp
    qed
    then obtain p ps where pre: "pre = p # ps" by (cases pre) simp_all
    with q have "cs = ps @ ''in '' @ (u # body) @ post" by simp
    then have "geo_occurrence cs g" unfolding g using r by (rule geo_occurrenceI)
    with "2.IH"(1) [OF None] have "geo_findall cs \<noteq> []" .
    with None show ?thesis by simp
  qed
qed

lemma strip_geo:
  assumes "is_upper u"
  shows "str_strip '' ,.'' (u # body) = str_rstrip '' ,.'' (u # body)"
proof -
  have "u \<notin> set '' ,.''" using assms by (auto simp: is_upper_def codepoint_def)
  then show ?thesis by (simp add: str_strip_def)
qed

lemma geo_finditer_groups: "map snd (geo_finditer n s) = geo_findall s"
  by (induction n s rule: geo_finditer.induct) (simp_all split: option.splits)

lemma geo_match_Nil: "geo_match [] = None"
  by (simp add: geo_match_def)

lemma takeWhile_run:
  assumes "\<forall>c\<in>set body. P c" "post = [] \<or> \<not> P (hd post)"
  shows "takeWhile P (body @ post) = body"
proof -
  from assms(2) have "takeWhile P post = []" by (cases post) auto
  with assms(1) show ?thesis by (simp add: takeWhile_append2)
qed

lemma geo_match_run:
  assumes "is_upper u" "body \<noteq> []" "\<forall>c\<in>set body. geo_class c"
    "post = [] \<or> \<not> geo_class (hd post)"
  shows "geo_match (''in '' @ (u # body) @ post) = Some (u # body)"
proof -
  have "takeWhile geo_class (body @ post) = body"
    using assms(3,4) by (rule takeWhile_run)
  with assms(1,2) show ?thesis by (simp add: geo_match_def)
qed

lemma geo_match_shape:
  assumes "geo_match s = Some g"
  obtains u body post where "s = ''in '' @ (u # body) @ post" "g = u # body" "is_upper u"
    "body \<noteq> []" "\<forall>c\<in>set body. geo_class c" "post = [] \<or> \<not> geo_class (hd post)"
proof -
  from assms have t: "take 3 s = ''in ''"
    unfolding geo_match_def by (simp split: if_splits)
  from assms t obtain u v where d: "drop 3 s = u # v" and u: "is_upper u"
    and ne: "takeWhile geo_class v \<noteq> []" and g: "g = u # takeWhile geo_class v"
    unfolding geo_match_def by (simp split: if_splits list.splits)
  have "take 3 s @ drop 3 s = ''in '' @ (u # takeWhile geo_class v) @ dropWhile geo_class v"
    unfolding t d by simp
  then have s: "s = ''in '' @ (u # takeWhile geo_class v) @ dropWhile geo_class v"
    by (simp only: append_take_drop_id)
  have cls: "\<forall>c\<in>set (takeWhile geo_class v). geo_class c"
    by (auto dest: set_takeWhileD)
  from s g u ne cls dropWhile_stops show thesis by (rule that)
qed

lemma geo_occurrence_at_match:
  "geo_occurrence_at q i g \<longleftrightarrow> geo_match (drop i q) = Some g"
proof
  assume "geo_occurrence_at q i g"
  then obtain pre u body post where q: "q = pre @ ''in '' @ (u # body) @ post"
    and i: "length pre = i" and g: "g = u # body" and r: "is_upper u" "body \<noteq> []"
      "\<forall>c\<in>set body. geo_class c" "post = [] \<or> \<not> geo_class (hd post)"
    unfolding geo_occurrence_at_def by (elim exE conjE)
  from q i have "drop i q = ''in '' @ (u # body) @ post" by simp
  then show "geo_match (drop i q) = Some g"
    unfolding g using geo_match_run [OF r] by simp
next
  assume m: "geo_match (drop i q) = Some g"
  then obtain u body post where s: "drop i q = ''in '' @ (u # body) @ post"
    and g: "g = u # body" and r: "is_upper u" "body \<noteq> []" "\<forall>c\<in>set body. geo_class c"
      "post = [] \<or> \<not> geo_class (hd post)"
    by (rule geo_match_shape)
  from s have "drop i q \<noteq> []" by simp
  then have len: "length (take i q) = i" by simp
  have "take i q @ drop i q = take i q @ ''in '' @ (u # body) @ post"
    unfolding s by (rule refl)
  then have q: "q = take i q @ ''in '' @ (u # body) @ post"
    by (simp only: append_take_drop_id)
  show "geo_occurrence_at q i g"
    unfolding geo_occurrence_at_def
    apply (rule exI [where x = "take i q"])
    apply (rule exI [where x = u])
    apply (rule exI [where x = body])
    apply (rule exI [where x = post])
    using q len g r apply (intro conjI)
          apply (assumption | rule refl)+
    done
qed

lemma geo_occurrence_at_iff: "geo_occurrence q g \<longleftrightarrow> (\<exists>i. geo_occurrence_at q i g)"
proof
  assume "geo_occurrence q g"
  then obtain pre u body post where q: "q = pre @ ''in '' @ (u # body) @ post"
    and g: "g = u # body" and r: "is_upper u" "body \<noteq> []" "\<forall>c\<in>set body. geo_class c"
      "post = [] \<or> \<not> geo_class (hd post)"
    by (rule geo_occurrenceE)
  have "geo_occurrence_at q (length pre) g"
    unfolding geo_occurrence_at_def
    apply (rule exI [where x = pre])
    apply (rule exI [where x = u])
    apply (rule exI [where x = body])
    apply (rule exI [where x = post])
    using q g r apply (intro conjI)
          apply (assumption | rule refl)+
    done
  then show "\<exists>i. geo_occurrence_at q i g" ..
next
  assume "\<exists>i. geo_occurrence_at q i g"
  then obtain i where "geo_occurrence_at q i g" ..
  then obtain pre u body post where q: "q = pre @ ''in '' @ (u # body) @ post"
    and g: "g = u # body" and r: "is_upper u" "body \<noteq> []"
      "\<forall>c\<in>set body. geo_class c" "post = [] \<or> \<not> geo_class (hd post)"
    unfolding geo_occurrence_at_def by (elim exE conjE)
  from q r show "geo_occurrence q g" unfolding g by (rule geo_occurrenceI)
qed

lemma geo_finditer_sound:
  "(i, g) \<in> set (geo_finditer n s) \<Longrightarrow> n \<le> i \<and> geo_match (drop (i - n) s) = Some g"
proof (induction n s rule: geo_finditer.induct)
  case (1 n)
  then show ?case by simp
next
  case (2 n c cs)
  show ?case
  proof (cases "geo_match (c # cs)")
    case None
    with "2.prems" have "(i, g) \<in> set (geo_finditer (Suc n) cs)" by simp
    with "2.IH"(1) [OF None] have a: "Suc n \<le> i" and b: "geo_match (drop (i - Suc n) cs) = Some g"
      by simp_all
    from a have "i - n = Suc (i - Suc n)" by simp
    then have "drop (i - n) (c # cs) = drop (i - Suc n) cs" by simp
    with a b show ?thesis by simp
  next
    case (Some a)
    with "2.prems" have "(i, g) = (n, a)
        \<or> (i, g) \<in> set (geo_finditer (n + 3 + length a) (drop (2 + length a) cs))"
      by simp
    then show ?thesis
    proof
      assume "(i, g) = (n, a)"
      with Some show ?thesis by simp
    next
      assume "(i, g) \<in> set (geo_finditer (n + 3 + length a) (drop (2 + length a) cs))"
      then have ab: "n + 3 + length a \<le> i
          \<and> geo_match (drop (i - (n + 3 + length a)) (drop (2 + length a) cs)) = Some g"
        by (rule "2.IH"(2) [OF Some])
      note a = ab [THEN conjunct1] and b = ab [THEN conjunct2]
      from a have "i - n = Suc ((i - (n + 3 + length a)) + (2 + length a))" by simp
      then have "drop (i - n) (c # cs) = drop ((i - (n + 3 + length a)) + (2 + length a)) cs"
        by simp
      also have "\<dots> = drop (i - (n + 3 + length a)) (drop (2 + length a) cs)"
        by (simp only: drop_drop)
      finally have "geo_match (drop (i - n) (c # cs)) = Some g" using b by (simp only:)
      moreover from a have "n \<le> i" by simp
      ultimately show ?thesis by (rule conjI [rotated])
    qed
  qed
qed

lemma geo_finditer_apart:
  "sorted_wrt (\<lambda>a b. fst a + 3 + length (snd a) \<le> fst b) (geo_finditer n s)"
proof (induction n s rule: geo_finditer.induct)
  case (1 n)
  then show ?case by simp
next
  case (2 n c cs)
  show ?case
  proof (cases "geo_match (c # cs)")
    case None
    with "2.IH"(1) [OF None] show ?thesis by simp
  next
    case (Some a)
    have "\<forall>b\<in>set (geo_finditer (n + 3 + length a) (drop (2 + length a) cs)).
            n + 3 + length a \<le> fst b"
    proof
      fix b
      assume "b \<in> set (geo_finditer (n + 3 + length a) (drop (2 + length a) cs))"
      then have "(fst b, snd b) \<in> set (geo_finditer (n + 3 + length a) (drop (2 + length a) cs))"
        by simp
      then show "n + 3 + length a \<le> fst b" by (rule geo_finditer_sound [THEN conjunct1])
    qed
    with "2.IH"(2) [OF Some] Some show ?thesis by simp
  qed
qed

lemma geo_finditer_complete:
  "geo_match (drop k s) = Some h \<Longrightarrow>
     (n + k, h) \<in> set (geo_finditer n s)
     \<or> (\<exists>a\<in>set (geo_finditer n s). fst a < n + k \<and> n + k < fst a + 3 + length (snd a))"
proof (induction n s arbitrary: k rule: geo_finditer.induct)
  case (1 n)
  then show ?case by (simp add: geo_match_Nil)
next
  case (2 n c cs)
  show ?case
  proof (cases "geo_match (c # cs)")
    case None
    with "2.prems" have "k \<noteq> 0" by (cases k) simp_all
    then obtain k' where k: "k = Suc k'" by (cases k) simp_all
    with "2.prems" have "geo_match (drop k' cs) = Some h" by simp
    from "2.IH"(1) [OF None this] show ?thesis unfolding k using None by simp
  next
    case (Some a)
    consider "k = 0" | "0 < k" "k < 3 + length a" | "3 + length a \<le> k" by linarith
    then show ?thesis
    proof cases
      case 1
      with "2.prems" Some have "h = a" by simp
      with 1 Some show ?thesis by simp
    next
      case 2
      then have "fst (n, a) < n + k \<and> n + k < fst (n, a) + 3 + length (snd (n, a))" by simp
      moreover have "(n, a) \<in> set (geo_finditer n (c # cs))" using Some by simp
      ultimately show ?thesis by blast
    next
      case 3
      then have "k = Suc ((k - (3 + length a)) + (2 + length a))" by simp
      then have "drop k (c # cs) = drop ((k - (3 + length a)) + (2 + length a)) cs"
        by (metis drop_Suc_Cons)
      also have "\<dots> = drop (k - (3 + length a)) (drop (2 + length a) cs)"
        by (simp only: drop_drop)
      finally have "geo_match (drop (k - (3 + length a)) (drop (2 + length a) cs)) = Some h"
        using "2.prems" by simp
      from "2.IH"(2) [OF Some this] 3 have
        "(n + k, h) \<in> set (geo_finditer (n + 3 + length a) (drop (2 + length a) cs))
         \<or> (\<exists>b\<in>set (geo_finditer (n + 3 + length a) (drop (2 + length a) cs)).
               fst b < n + k \<and> n + k < fst b + 3 + length (snd b))"
        by (simp add: algebra_simps)
      with Some show ?thesis by auto
    qed
  qed
qed


lemma geo_reportedD:
  assumes "geo_reported n q ps"
  shows "\<And>a. a \<in> set ps \<Longrightarrow> n \<le> fst a"
    and "\<And>a. a \<in> set ps \<Longrightarrow> geo_occurrence_at q (fst a) (snd a)"
    and "sorted_wrt (\<lambda>a b. fst a + 3 + length (snd a) \<le> fst b) ps"
    and "\<And>j h. n \<le> j \<Longrightarrow> geo_occurrence_at q j h \<Longrightarrow>
           (j, h) \<in> set ps \<or> (\<exists>a\<in>set ps. fst a < j \<and> j < fst a + 3 + length (snd a))"
  using assms unfolding geo_reported_def by blast+

lemma geo_occurrence_at_fun:
  "geo_occurrence_at q i g \<Longrightarrow> geo_occurrence_at q i h \<Longrightarrow> g = h"
  by (simp add: geo_occurrence_at_match)

lemma geo_reported_Nil:
  assumes "geo_reported n q []" "n \<le> j"
  shows "\<not> geo_occurrence_at q j h"
proof
  assume "geo_occurrence_at q j h"
  with geo_reportedD(4) [OF assms(1) assms(2)] show False by simp
qed

lemma geo_reported_first:
  assumes r: "geo_reported n q (a # ps)" and j: "n \<le> j" and o: "geo_occurrence_at q j h"
  shows "fst a \<le> j"
proof -
  have low: "fst a \<le> fst b" if "b \<in> set (a # ps)" for b
  proof (cases "b = a")
    case True
    then show ?thesis by simp
  next
    case False
    with that have "b \<in> set ps" by simp
    with geo_reportedD(3) [OF r] have "fst a + 3 + length (snd a) \<le> fst b" by simp
    then show ?thesis by simp
  qed
  from geo_reportedD(4) [OF r j o] show ?thesis
  proof
    assume "(j, h) \<in> set (a # ps)"
    then have "fst a \<le> fst (j, h)" by (rule low)
    then show ?thesis by simp
  next
    assume "\<exists>b\<in>set (a # ps). fst b < j \<and> j < fst b + 3 + length (snd b)"
    then obtain b where b: "b \<in> set (a # ps)" and "fst b < j" by blast
    with low [OF b] show ?thesis by simp
  qed
qed

lemma geo_reported_tail:
  assumes r: "geo_reported n q (a # ps)"
  shows "geo_reported (fst a + 3 + length (snd a)) q ps"
proof -
  let ?m = "fst a + 3 + length (snd a)"
  have na: "n \<le> fst a" using geo_reportedD(1) [OF r, of a] by simp
  have s: "sorted_wrt (\<lambda>a b. fst a + 3 + length (snd a) \<le> fst b) ps"
    and low: "\<forall>b\<in>set ps. ?m \<le> fst b"
    using geo_reportedD(3) [OF r] by simp_all
  have e: "\<forall>b\<in>set ps. ?m \<le> fst b \<and> geo_occurrence_at q (fst b) (snd b)"
  proof
    fix b
    assume b: "b \<in> set ps"
    then have "b \<in> set (a # ps)" by simp
    then have "geo_occurrence_at q (fst b) (snd b)" by (rule geo_reportedD(2) [OF r])
    with low b show "?m \<le> fst b \<and> geo_occurrence_at q (fst b) (snd b)" by simp
  qed
  have c: "\<forall>j h. ?m \<le> j \<and> geo_occurrence_at q j h \<longrightarrow>
             (j, h) \<in> set ps \<or> (\<exists>b\<in>set ps. fst b < j \<and> j < fst b + 3 + length (snd b))"
  proof (intro allI impI)
    fix j h
    assume jh: "?m \<le> j \<and> geo_occurrence_at q j h"
    with na have "n \<le> j" by simp
    from geo_reportedD(4) [OF r this jh [THEN conjunct2]]
    show "(j, h) \<in> set ps \<or> (\<exists>b\<in>set ps. fst b < j \<and> j < fst b + 3 + length (snd b))"
    proof
      assume "(j, h) \<in> set (a # ps)"
      moreover have "(j, h) \<noteq> a" using jh by auto
      ultimately show ?thesis by simp
    next
      assume "\<exists>b\<in>set (a # ps). fst b < j \<and> j < fst b + 3 + length (snd b)"
      then obtain b where b: "b \<in> set (a # ps)" "fst b < j" "j < fst b + 3 + length (snd b)"
        by blast
      with jh have "b \<noteq> a" by auto
      with b show ?thesis by auto
    qed
  qed
  from e s c show ?thesis unfolding geo_reported_def by (intro conjI)
qed

lemma geo_reported_unique:
  "geo_reported n q ps \<Longrightarrow> geo_reported n q ps' \<Longrightarrow> ps = ps'"
proof (induction ps arbitrary: n ps')
  case Nil
  show ?case
  proof (cases ps')
    case Nil
    then show ?thesis by simp
  next
    case (Cons a' r')
    with Nil.prems(2) have "n \<le> fst a'" "geo_occurrence_at q (fst a') (snd a')"
      using geo_reportedD(1,2) [of n q ps' a'] by simp_all
    with geo_reported_Nil [OF Nil.prems(1)] show ?thesis by blast
  qed
next
  case (Cons a ps)
  have a: "n \<le> fst a" "geo_occurrence_at q (fst a) (snd a)"
    using geo_reportedD(1,2) [OF Cons.prems(1), of a] by simp_all
  show ?case
  proof (cases ps')
    case Nil
    with Cons.prems(2) geo_reported_Nil a show ?thesis by blast
  next
    case (Cons a' r')
    have r': "geo_reported n q (a' # r')" using Cons.prems(2) Cons by simp
    have a': "n \<le> fst a'" "geo_occurrence_at q (fst a') (snd a')"
      using geo_reportedD(1,2) [OF r', of a'] by simp_all
    have "fst a \<le> fst a'" using Cons.prems(1) a' by (rule geo_reported_first)
    moreover have "fst a' \<le> fst a" using r' a by (rule geo_reported_first)
    ultimately have f: "fst a = fst a'" by simp
    with a(2) a'(2) have "snd a = snd a'" by (simp add: geo_occurrence_at_fun)
    with f have eq: "a = a'" by (rule prod_eqI)
    have "geo_reported (fst a + 3 + length (snd a)) q ps"
      using Cons.prems(1) by (rule geo_reported_tail)
    moreover have "geo_reported (fst a + 3 + length (snd a)) q r'"
      unfolding eq using r' by (rule geo_reported_tail)
    ultimately have "ps = r'" by (rule Cons.IH)
    with eq Cons show ?thesis by simp
  qed
qed

lemma geo_finditer_reported: "geo_reported 0 q (geo_finditer 0 q)"
proof -
  have e: "\<forall>a\<in>set (geo_finditer 0 q). 0 \<le> fst a \<and> geo_occurrence_at q (fst a) (snd a)"
  proof
    fix a
    assume "a \<in> set (geo_finditer 0 q)"
    then have "(fst a, snd a) \<in> set (geo_finditer 0 q)" by simp
    then have "geo_match (drop (fst a - 0) q) = Some (snd a)"
      by (rule geo_finditer_sound [THEN conjunct2])
    then show "0 \<le> fst a \<and> geo_occurrence_at q (fst a) (snd a)"
      by (simp add: geo_occurrence_at_match)
  qed
  have c: "\<forall>j h. 0 \<le> j \<and> geo_occurrence_at q j h \<longrightarrow>
      (j, h) \<in> set (geo_finditer 0 q)
      \<or> (\<exists>a\<in>set (geo_finditer 0 q). fst a < j \<and> j < fst a + 3 + length (snd a))"
  proof (intro allI impI)
    fix j h
    assume "0 \<le> j \<and> geo_occurrence_at q j h"
    then have "geo_match (drop j q) = Some h" by (simp add: geo_occurrence_at_match)
    from geo_finditer_complete [OF this, of 0]
    show "(j, h) \<in> set (geo_finditer 0 q)
      \<or> (\<exists>a\<in>set (geo_finditer 0 q). fst a < j \<and> j < fst a + 3 + length (snd a))"
      by simp
  qed
  from e geo_finditer_apart c show ?thesis unfolding geo_reported_def by (intro conjI)
qed

lemma geo_reported_terms:
  assumes "geo_reported 0 q ps"
  shows "extract_geo_filters q = map (\<lambda>a. str_rstrip '' ,.'' (snd a)) ps"
proof -
  from assms geo_finditer_reported have ps: "ps = geo_finditer 0 q"
    by (rule geo_reported_unique)
  have "map (str_strip '' ,.'') (map snd ps) = map (\<lambda>a. str_rstrip '' ,.'' (snd a)) ps"
  proof (simp only: map_map, rule map_cong [OF refl])
    fix a
    assume "a \<in> set ps"
    then have "geo_occurrence_at q (fst a) (snd a)" by (rule geo_reportedD(2) [OF assms])
    then obtain u body where "snd a = u # body" "is_upper u"
      unfolding geo_occurrence_at_def by (elim exE conjE)
    then show "(str_strip '' ,.'' \<circ> snd) a = str_rstrip '' ,.'' (snd a)"
      by (simp add: strip_geo)
  qed
  then show ?thesis
    unfolding extract_geo_filters_def ps by (simp only: geo_finditer_groups)
qed


text \<open>
  Claim C4, as the code has it. On the question
  \<open>Show rankings in Springfield and in Lakeview\<close> the extraction yields the single term
  \<open>Springfield and in Lakeview\<close>: the space, the letters of \<open>and\<close> and of the second
  \<open>in\<close> all belong to the character class, so the first match runs to the end of the
  question. In general, for every question there is exactly one list of matches as
  \<open>geo_reported\<close> describes them: occurrences, right after an \<open>in \<close>, of a capital letter
  followed by a non-empty run of letters, digits, spaces, hyphens and underscores that
  cannot be extended, in the order of their places, none starting before the end of the
  one before, and such that every occurrence in the question is listed or starts inside a
  listed one. The extraction returns one term for each match of that list, in that order:
  the group with its trailing spaces (the only characters of \<open>" ,."\<close> it can end with)
  removed. So every extracted term comes from an occurrence, and a question that has an
  occurrence yields at least one term.
\<close>

theorem C4_geo_extraction:
  "extract_geo_filters ''Show rankings in Springfield and in Lakeview''
     = [''Springfield and in Lakeview'']
   \<and> (\<forall>q. \<exists>!ps. geo_reported 0 q ps)
   \<and> (\<forall>q ps. geo_reported 0 q ps \<longrightarrow>
          extract_geo_filters q = map (\<lambda>a. str_rstrip '' ,.'' (snd a)) ps)
   \<and> (\<forall>q g. geo_occurrence q g \<longleftrightarrow> (\<exists>i. geo_occurrence_at q i g))
   \<and> (\<forall>q t. t \<in> set (extract_geo_filters q) \<longrightarrow>
          (\<exists>g. geo_occurrence q g \<and> t = str_rstrip '' ,.'' g))
   \<and> (\<forall>q g. geo_occurrence q g \<longrightarrow> extract_geo_filters q \<noteq> [])"
proof (intro conjI allI impI)
  show "extract_geo_filters ''Show rankings in Springfield and in Lakeview''
     = [''Springfield and in Lakeview'']"
    by code_simp
next
  fix q
  show "\<exists>!ps. geo_reported 0 q ps"
  proof (rule ex1I)
    show "geo_reported 0 q (geo_finditer 0 q)" by (rule geo_finditer_reported)
  next
    fix ps
    assume "geo_reported 0 q ps"
    then show "ps = geo_finditer 0 q" using geo_finditer_reported by (rule geo_reported_unique)
  qed
next
  fix q ps
  assume "geo_reported 0 q ps"
  then show "extract_geo_filters q = map (\<lambda>a. str_rstrip '' ,.'' (snd a)) ps"
    by (rule geo_reported_terms)
next
  fix q g
  show "geo_occurrence q g \<longleftrightarrow> (\<exists>i. geo_occurrence_at q i g)"
    by (rule geo_occurrence_at_iff)
next
  fix q t
  assume "t \<in> set (extract_geo_filters q)"
  then obtain g where g: "g \<in> set (geo_findall q)" and t: "t = str_strip '' ,.'' g"
    unfolding extract_geo_filters_def by auto
  from g have occ: "geo_occurrence q g" by (rule geo_findall_sound)
  then obtain u body where "g = u # body" "is_upper u" by (rule geo_occurrenceE)
  then have "str_strip '' ,.'' g = str_rstrip '' ,.'' g" by (simp add: strip_geo)
  with occ t show "\<exists>g. geo_occurrence q g \<and> t = str_rstrip '' ,.'' g" by auto
next
  fix q g
  assume "geo_occurrence q g"
  then have "geo_findall q \<noteq> []" by (rule geo_findall_complete)
  then show "extract_geo_filters q \<noteq> []" unfolding extract_geo_filters_def by simp
qed

text \<open>The terms \<open>Springfield and\<close>, \<open>Lakeview\<close> are not what the code returns.\<close>

theorem C4_geo_extraction_counterexample:
  "extract_geo_filters ''Show rankings in Springfield and in Lakeview''
     \<noteq> [''Springfield and'', ''Lakeview'']"
  by code_simp

text \<open>
  Two matches, both returned in order; and the question of the claim, where the
  occurrence of \<open>Lakeview\<close> at index 33 starts inside the match at index 14 and is not
  listed.
\<close>

theorem C4_geo_extraction_witness:
  "geo_reported 0 ''stores in Oslo , in Rome.'' [(7, ''Oslo ''), (17, ''Rome'')]
   \<and> extract_geo_filters ''stores in Oslo , in Rome.'' = [''Oslo'', ''Rome'']
   \<and> geo_reported 0 ''Show rankings in Springfield and in Lakeview''
        [(14, ''Springfield and in Lakeview'')]
   \<and> geo_occurrence_at ''Show rankings in Springfield and in Lakeview'' 33 ''Lakeview''
   \<and> geo_occurrence ''Show rankings in Springfield and in Lakeview'' ''Lakeview''
   \<and> ''Oslo'' \<in> set (extract_geo_filters ''stores in Oslo , in Rome.'')
   \<and> (\<exists>g. geo_occurrence ''stores in Oslo , in Rome.'' g \<and> ''Oslo'' = str_rstrip '' ,.'' g)
   \<and> extract_geo_filters ''stores in Oslo , in Rome.'' \<noteq> []"
proof -
  let ?q = "''stores in Oslo , in Rome.''"
  let ?e = "''Show rankings in Springfield and in Lakeview''"
  note terms = C4_geo_extraction [THEN conjunct2, THEN conjunct2, THEN conjunct1]
  note places = C4_geo_extraction [THEN conjunct2, THEN conjunct2, THEN conjunct2, THEN conjunct1]
  note sound = C4_geo_extraction [THEN conjunct2, THEN conjunct2, THEN conjunct2,
      THEN conjunct2, THEN conjunct1]
  note some = C4_geo_extraction [THEN conjunct2, THEN conjunct2, THEN conjunct2,
      THEN conjunct2, THEN conjunct2]
  have "geo_finditer 0 ?q = [(7, ''Oslo ''), (17, ''Rome'')]" by code_simp
  with geo_finditer_reported [of ?q]
  have r: "geo_reported 0 ?q [(7, ''Oslo ''), (17, ''Rome'')]" by (simp only:)
  with terms have "extract_geo_filters ?q
      = map (\<lambda>a. str_rstrip '' ,.'' (snd a)) [(7::nat, ''Oslo ''), (17, ''Rome'')]"
    by blast
  then have x: "extract_geo_filters ?q = [''Oslo'', ''Rome'']"
    by (simp add: str_rstrip_def)
  have "geo_finditer 0 ?e = [(14, ''Springfield and in Lakeview'')]" by code_simp
  with geo_finditer_reported [of ?e]
  have re: "geo_reported 0 ?e [(14, ''Springfield and in Lakeview'')]" by (simp only:)
  have "geo_match (drop 33 ?e) = Some ''Lakeview''" by code_simp
  then have at: "geo_occurrence_at ?e 33 ''Lakeview''" by (simp only: geo_occurrence_at_match)
  with places have occ: "geo_occurrence ?e ''Lakeview''" by blast
  from x have m: "''Oslo'' \<in> set (extract_geo_filters ?q)" by simp
  with sound obtain g where g: "geo_occurrence ?q g" "''Oslo'' = str_rstrip '' ,.'' g"
    by blast
  from some g(1) have ne: "extract_geo_filters ?q \<noteq> []" by blast
  from r x re at occ m g ne show ?thesis by blast
qed

section \<open>Argument synthesis: proofs\<close>

lemma setdefault_lookup:
  "setdefault d k v k' =
     (case d k' of Some x \<Rightarrow> Some x | None \<Rightarrow> if k' = k then Some v else None)"
  by (auto simp: setdefault_def dom_def split: option.splits)

text \<open>The three injected keys, read at any key \<open>k\<close>; the keys are kept abstract.\<close>

lemma layered_lookup:
  assumes "k1 \<noteq> k2" "k1 \<noteq> k3" "k2 \<noteq> k3"
  shows "(if g then setdefault (setdefault (if k1 \<notin> dom d then d(k1 \<mapsto> a) else d) k2 b) k3 c
          else (if k1 \<notin> dom d then d(k1 \<mapsto> a) else d)) k =
         (case d k of
            Some v \<Rightarrow> Some v
          | None \<Rightarrow> if k = k1 then Some a
                    else if g \<and> k = k2 then Some b
                    else if g \<and> k = k3 then Some c else None)"
  using assms by (auto simp: setdefault_lookup dom_def split: option.splits)

lemma prepare_inputs_add:
  "prepare_inputs agent config question (Some ov) =
     (if extract_geo_filters question \<noteq> [] then
        setdefault
          (setdefault
             (if ''nodeIdentifierProperty'' \<notin> dom (defaults config)
              then (defaults config)(''nodeIdentifierProperty'' \<mapsto>
                     PStr (default_identifier_property agent))
              else defaults config)
             ''nodeLabels'' (PList [PStr ''Area'', PStr ''Municipality'']))
          ''filterNames'' (PList (map PStr (extract_geo_filters question)))
      else (if ''nodeIdentifierProperty'' \<notin> dom (defaults config)
              then (defaults config)(''nodeIdentifierProperty'' \<mapsto>
                     PStr (default_identifier_property agent))
              else defaults config)) ++ ov"
  unfolding prepare_inputs_def Let_def by (cases "ov = Map.empty") simp_all

lemma key_distinct:
  "''nodeIdentifierProperty'' \<noteq> ''nodeLabels''"
  "''nodeIdentifierProperty'' \<noteq> ''filterNames''"
  "''nodeLabels'' \<noteq> ''filterNames''"
  by simp_all

lemma prepare_inputs_lookup:
  "prepare_inputs agent config question (Some ov) k =
     (case ov k of
        Some v \<Rightarrow> Some v
      | None \<Rightarrow>
          (case defaults config k of
             Some v \<Rightarrow> Some v
           | None \<Rightarrow>
               if k = ''nodeIdentifierProperty''
               then Some (PStr (default_identifier_property agent))
               else if extract_geo_filters question \<noteq> [] \<and> k = ''nodeLabels''
               then Some (PList [PStr ''Area'', PStr ''Municipality''])
               else if extract_geo_filters question \<noteq> [] \<and> k = ''filterNames''
               then Some (PList (map PStr (extract_geo_filters question)))
               else None))"
  unfolding prepare_inputs_add map_add_def layered_lookup [OF key_distinct] ..

lemma combined_inputs_lookup:
  "combined_inputs llm inputs_arg k =
     (case (case inputs_arg of None \<Rightarrow> None | Some given \<Rightarrow> given k) of
        Some v \<Rightarrow> Some v
      | None \<Rightarrow> llm k)"
  by (cases inputs_arg) (simp_all add: combined_inputs_def map_add_def split: option.splits)

section \<open>Construction: proofs\<close>

lemma foldl_update_map_of:
  "map_of (foldl (\<lambda>d config. AList.update (name config) config d) acc cs) =
     map_of acc ++ map_of (rev (map (\<lambda>c. (name c, c)) cs))"
proof (induction cs arbitrary: acc)
  case Nil
  then show ?case by simp
next
  case (Cons c cs)
  show ?case
    by (auto simp: Cons.IH update_conv' map_add_def fun_eq_iff split: option.splits)
qed

lemma dict_by_name_map_of:
  "map_of (dict_by_name cs) = map_of (rev (map (\<lambda>c. (name c, c)) cs))"
  unfolding dict_by_name_def by (simp add: foldl_update_map_of)

lemma foldl_update_distinct:
  "distinct (map fst acc) \<Longrightarrow>
     distinct (map fst (foldl (\<lambda>d config. AList.update (name config) config d) acc cs))"
  by (induction cs arbitrary: acc) (simp_all add: distinct_update)

lemma dict_by_name_distinct: "distinct (map fst (dict_by_name cs))"
  unfolding dict_by_name_def by (rule foldl_update_distinct) simp

lemma foldl_update_nonempty:
  "acc \<noteq> [] \<Longrightarrow> foldl (\<lambda>d config. AList.update (name config) config d) acc cs \<noteq> []"
  by (induction cs arbitrary: acc) simp_all

lemma dict_by_name_empty: "dict_by_name cs = [] \<longleftrightarrow> cs = []"
proof (cases cs)
  case Nil
  then show ?thesis by (simp add: dict_by_name_def)
next
  case (Cons c rest)
  have "foldl (\<lambda>d config. AList.update (name config) config d)
          (AList.update (name c) c []) rest \<noteq> []"
    by (rule foldl_update_nonempty) simp
  with Cons show ?thesis by (simp add: dict_by_name_def)
qed

lemma update_fresh: "k \<notin> fst ` set al \<Longrightarrow> AList.update k v al = al @ [(k, v)]"
  by (induction al) auto

lemma foldl_update_fresh:
  "distinct (map fst acc @ map name cs) \<Longrightarrow>
     foldl (\<lambda>d config. AList.update (name config) config d) acc cs =
       acc @ map (\<lambda>c. (name c, c)) cs"
proof (induction cs arbitrary: acc)
  case Nil
  then show ?case by simp
next
  case (Cons c cs)
  from Cons.prems have fresh: "name c \<notin> fst ` set acc" by auto
  from Cons.prems have "distinct (map fst (acc @ [(name c, c)]) @ map name cs)" by auto
  from Cons.IH [OF this] fresh show ?case by (simp add: update_fresh)
qed

lemma dict_by_name_distinct_names:
  "distinct (map name cs) \<Longrightarrow> dict_by_name cs = map (\<lambda>c. (name c, c)) cs"
  unfolding dict_by_name_def using foldl_update_fresh [of "[]" cs] by simp

text \<open>
  Claim C5, as the code has it. The effective list is the supplied list, or the built-in
  one when none is supplied, filtered by the allow-list when that is given and not empty.
  Construction raises \<open>ValueError\<close> exactly when the effective list is empty. On success
  the registry maps every name to the last descriptor of the effective list that bears
  it; when the names of the effective list are pairwise distinct, the registry lists the
  descriptors in their order and maps each descriptor's name to that descriptor.
\<close>

theorem C5_registry_construction:
  "effective_configs builtin tc allowed =
     (let configs = (case tc of None \<Rightarrow> builtin | Some cs \<Rightarrow> cs)
      in case allowed of
           None \<Rightarrow> configs
         | Some names \<Rightarrow>
             if names = [] then configs else filter (\<lambda>cfg. name cfg \<in> set names) configs)
   \<and> (effective_configs builtin tc allowed = [] \<longrightarrow>
         init builtin tc ident allowed llm
           = Inl (ValueError ''No graph analytics tools configured or allowed.''))
   \<and> (effective_configs builtin tc allowed \<noteq> [] \<longrightarrow>
         (\<exists>agent. init builtin tc ident allowed llm = Inr agent
            \<and> map_of (tool_configs agent)
                = map_of (rev (map (\<lambda>c. (name c, c)) (effective_configs builtin tc allowed)))
            \<and> distinct (map fst (tool_configs agent))
            \<and> (distinct (map name (effective_configs builtin tc allowed)) \<longrightarrow>
                  list_tools agent = effective_configs builtin tc allowed
                  \<and> (\<forall>c\<in>set (effective_configs builtin tc allowed).
                         map_of (tool_configs agent) (name c) = Some c))))"
proof (intro conjI impI)
  show "effective_configs builtin tc allowed =
     (let configs = (case tc of None \<Rightarrow> builtin | Some cs \<Rightarrow> cs)
      in case allowed of
           None \<Rightarrow> configs
         | Some names \<Rightarrow>
             if names = [] then configs else filter (\<lambda>cfg. name cfg \<in> set names) configs)"
    by (simp add: effective_configs_def Let_def split: option.splits)
next
  assume "effective_configs builtin tc allowed = []"
  then show "init builtin tc ident allowed llm
           = Inl (ValueError ''No graph analytics tools configured or allowed.'')"
    by (simp add: init_def dict_by_name_empty)
next
  let ?eff = "effective_configs builtin tc allowed"
  let ?agent = "\<lparr>tool_configs = dict_by_name ?eff,
                 default_identifier_property = ident,
                 allowed_tool_names = set (case allowed of None \<Rightarrow> [] | Some names \<Rightarrow> names),
                 use_llm_selector = llm\<rparr>"
  assume ne: "?eff \<noteq> []"
  then have i: "init builtin tc ident allowed llm = Inr ?agent"
    by (simp add: init_def dict_by_name_empty Let_def)
  have m: "map_of (tool_configs ?agent) = map_of (rev (map (\<lambda>c. (name c, c)) ?eff))"
    by (simp add: dict_by_name_map_of)
  have d: "distinct (map fst (tool_configs ?agent))"
    by (simp add: dict_by_name_distinct)
  have u: "distinct (map name ?eff) \<longrightarrow>
             list_tools ?agent = ?eff
             \<and> (\<forall>c\<in>set ?eff. map_of (tool_configs ?agent) (name c) = Some c)"
  proof
    assume dn: "distinct (map name ?eff)"
    then have eq: "dict_by_name ?eff = map (\<lambda>c. (name c, c)) ?eff"
      by (rule dict_by_name_distinct_names)
    have l: "list_tools ?agent = ?eff"
      by (simp add: list_tools_def eq comp_def)
    have "\<forall>c\<in>set ?eff. map_of (map (\<lambda>c. (name c, c)) ?eff) (name c) = Some c"
    proof
      fix c assume "c \<in> set ?eff"
      then have "(name c, c) \<in> set (map (\<lambda>c. (name c, c)) ?eff)" by auto
      moreover have "distinct (map fst (map (\<lambda>c. (name c, c)) ?eff))"
        using dn by (simp add: comp_def)
      ultimately show "map_of (map (\<lambda>c. (name c, c)) ?eff) (name c) = Some c"
        by (rule map_of_is_SomeI [rotated])
    qed
    with l show "list_tools ?agent = ?eff
             \<and> (\<forall>c\<in>set ?eff. map_of (tool_configs ?agent) (name c) = Some c)"
      by (simp add: eq)
  qed
  from i m d u show "\<exists>agent. init builtin tc ident allowed llm = Inr agent
            \<and> map_of (tool_configs agent) = map_of (rev (map (\<lambda>c. (name c, c)) ?eff))
            \<and> distinct (map fst (tool_configs agent))
            \<and> (distinct (map name ?eff) \<longrightarrow>
                  list_tools agent = ?eff
                  \<and> (\<forall>c\<in>set ?eff. map_of (tool_configs agent) (name c) = Some c))"
    by (intro exI [of _ ?agent] conjI)
qed

text \<open>
  Two supplied descriptors with the same name: the registry maps the name of the first
  to the second.
\<close>

theorem C5_registry_construction_counterexample:
  "init [] (Some [\<lparr>name = ''rank'', description = ''first'', keyword_list = [''rank''],
                    defaults = Map.empty, summary_builder = None\<rparr>,
                  \<lparr>name = ''rank'', description = ''second'', keyword_list = [''rank''],
                    defaults = Map.empty, summary_builder = None\<rparr>])
        ''name'' None True
     = Inr \<lparr>tool_configs =
              [(''rank'', \<lparr>name = ''rank'', description = ''second'', keyword_list = [''rank''],
                           defaults = Map.empty, summary_builder = None\<rparr>)],
            default_identifier_property = ''name'', allowed_tool_names = {},
            use_llm_selector = True\<rparr>
   \<and> map_of [(''rank'', \<lparr>name = ''rank'', description = ''second'', keyword_list = [''rank''],
                           defaults = Map.empty, summary_builder = None\<rparr>)]
         (name \<lparr>name = ''rank'', description = ''first'', keyword_list = [''rank''],
                    defaults = Map.empty, summary_builder = None\<rparr>)
       \<noteq> Some \<lparr>name = ''rank'', description = ''first'', keyword_list = [''rank''],
                    defaults = Map.empty, summary_builder = None\<rparr>"
  by (simp add: init_def effective_configs_def dict_by_name_def)

theorem C5_registry_construction_witness:
  "init [] (Some [\<lparr>name = ''a'', description = '''', keyword_list = [],
                    defaults = Map.empty, summary_builder = None\<rparr>,
                  \<lparr>name = ''b'', description = '''', keyword_list = [],
                    defaults = Map.empty, summary_builder = None\<rparr>])
        ''name'' (Some [''c'']) True
     = Inl (ValueError ''No graph analytics tools configured or allowed.'')
   \<and> (\<exists>agent.
         init [] (Some [\<lparr>name = ''a'', description = '''', keyword_list = [],
                    defaults = Map.empty, summary_builder = None\<rparr>,
                  \<lparr>name = ''b'', description = '''', keyword_list = [],
                    defaults = Map.empty, summary_builder = None\<rparr>])
           ''name'' (Some [''b'']) True = Inr agent
         \<and> list_tools agent
             = [\<lparr>name = ''b'', description = '''', keyword_list = [],
                    defaults = Map.empty, summary_builder = None\<rparr>]
         \<and> map_of (tool_configs agent) ''b''
             = Some \<lparr>name = ''b'', description = '''', keyword_list = [],
                    defaults = Map.empty, summary_builder = None\<rparr>)"
proof -
  let ?a = "\<lparr>name = ''a'', description = '''', keyword_list = [],
                    defaults = Map.empty, summary_builder = None\<rparr>"
  let ?b = "\<lparr>name = ''b'', description = '''', keyword_list = [],
                    defaults = Map.empty, summary_builder = None\<rparr>"
  have e1: "effective_configs [] (Some [?a, ?b]) (Some [''c'']) = []"
    by (simp add: effective_configs_def)
  have e2: "effective_configs [] (Some [?a, ?b]) (Some [''b'']) = [?b]"
    by (simp add: effective_configs_def)
  from C5_registry_construction [of "[]" "Some [?a, ?b]" "Some [''c'']" "''name''" True] e1
  have w1: "init [] (Some [?a, ?b]) ''name'' (Some [''c'']) True
              = Inl (ValueError ''No graph analytics tools configured or allowed.'')"
    by blast
  from C5_registry_construction [of "[]" "Some [?a, ?b]" "Some [''b'']" "''name''" True]
  have "\<exists>agent. init [] (Some [?a, ?b]) ''name'' (Some [''b'']) True = Inr agent
          \<and> list_tools agent = [?b] \<and> map_of (tool_configs agent) ''b'' = Some ?b"
    unfolding e2 by auto
  with w1 show ?thesis by blast
qed

section \<open>Keyword matching: proofs\<close>

lemma sublist_trans: "sublist xs ys \<Longrightarrow> sublist ys zs \<Longrightarrow> sublist xs zs"
  by (rule sublist_order.order_trans)

text \<open>Every token of \<open>split\<close> is a piece of the string it was cut from.\<close>

lemma split_from_sublist:
  "w \<in> set (split_from cur s) \<Longrightarrow> sublist w (cur @ s)"
proof (induction s arbitrary: cur)
  case Nil
  then show ?case by (simp split: if_splits)
next
  case (Cons c cs)
  show ?case
  proof (cases "is_space c")
    case False
    with Cons.prems have "w \<in> set (split_from (cur @ [c]) cs)" by simp
    then have "sublist w ((cur @ [c]) @ cs)" by (rule Cons.IH)
    then show ?thesis by simp
  next
    case True
    with Cons.prems have "(cur \<noteq> [] \<and> w = cur) \<or> w \<in> set (split_from [] cs)"
      by (auto split: if_splits)
    then show ?thesis
    proof
      assume "cur \<noteq> [] \<and> w = cur"
      then show ?thesis by simp
    next
      assume "w \<in> set (split_from [] cs)"
      then have "sublist w ([] @ cs)" by (rule Cons.IH)
      then have "sublist w cs" by simp
      moreover have "sublist cs ((cur @ [c]) @ cs)" by (rule sublist_append_leftI)
      ultimately have "sublist w ((cur @ [c]) @ cs)" by (rule sublist_trans)
      then show ?thesis by simp
    qed
  qed
qed

lemma str_split_sublist: "w \<in> set (str_split s) \<Longrightarrow> sublist w s"
  unfolding str_split_def using split_from_sublist [of w "[]" s] by simp

lemma keyword_matches_iff:
  "keyword_matches normalized kw = sublist (str_lower kw) normalized"
proof -
  have "sublist (str_lower kw) normalized"
    if w: "w \<in> set (str_split normalized)"
      and m: "sublist (str_lower kw) w \<or> prefix (str_lower kw) w" for w
  proof -
    from m have "sublist (str_lower kw) w" by auto
    moreover from w have "sublist w normalized" by (rule str_split_sublist)
    ultimately show ?thesis by (rule sublist_trans)
  qed
  then show ?thesis
    unfolding keyword_matches_def Let_def list_ex_iff by blast
qed

lemma first_match_find:
  "first_match normalized configs =
     map_option name (find (\<lambda>config. list_ex (keyword_matches normalized) (keyword_list config)) configs)"
  by (induction configs) simp_all

lemma first_match_None:
  "first_match normalized configs = None \<longleftrightarrow>
     (\<forall>config\<in>set configs. \<forall>kw\<in>set (keyword_list config). \<not> keyword_matches normalized kw)"
  by (induction configs) (simp_all add: list_ex_iff)

lemma first_match_only:
  assumes "config \<in> set configs" "kw \<in> set (keyword_list config)" "keyword_matches normalized kw"
    and "\<forall>other\<in>set configs. \<forall>kw'\<in>set (keyword_list other).
           keyword_matches normalized kw' \<longrightarrow> name other = name config"
  shows "first_match normalized configs = Some (name config)"
  using assms
proof (induction configs)
  case Nil
  then show ?case by simp
next
  case (Cons c cs)
  show ?case
  proof (cases "list_ex (keyword_matches normalized) (keyword_list c)")
    case True
    then obtain kw' where "kw' \<in> set (keyword_list c)" "keyword_matches normalized kw'"
      by (auto simp: list_ex_iff)
    with Cons.prems(4) have "name c = name config" by auto
    with True show ?thesis by simp
  next
    case False
    with Cons.prems(1,2,3) have "config \<in> set cs" by (auto simp: list_ex_iff)
    from Cons.IH [OF this Cons.prems(2,3)] Cons.prems(4) False show ?thesis by simp
  qed
qed

text \<open>
  Claim C9. For one keyword, the three tests of the matcher together say exactly that
  the lower-cased keyword is a substring of the lower-cased question; so the matcher
  returns the name of the first tool of the registry that has such a keyword, and
  \<open>None\<close> when there is none.
\<close>

theorem C9_token_rules_redundant:
  "keyword_matches (str_lower question) kw = substring_rule question kw
   \<and> infer_tool agent question =
       map_option name
         (find (\<lambda>config. list_ex (substring_rule question) (keyword_list config))
            (list_tools agent))"
proof -
  have eq: "keyword_matches (str_lower question) = substring_rule question"
    by (rule ext) (simp add: keyword_matches_iff substring_rule_def)
  show ?thesis
    unfolding infer_tool_def first_match_find eq by simp
qed

text \<open>
  Claim C6, as the code has it. The matcher returns the name of the first tool, in
  registry order, one of whose keywords matches the question; so when every tool that has
  a matching keyword bears the same name, it returns that name; and it returns \<open>None\<close>
  exactly when no keyword of any tool matches.
\<close>

theorem C6_keyword_matcher:
  "infer_tool agent question =
     map_option name
       (find (\<lambda>config. list_ex (keyword_matches (str_lower question)) (keyword_list config))
          (list_tools agent))
   \<and> (\<forall>config kw.
         config \<in> set (list_tools agent) \<and> kw \<in> set (keyword_list config)
         \<and> sublist (str_lower kw) (str_lower question)
         \<and> (\<forall>other\<in>set (list_tools agent). \<forall>kw'\<in>set (keyword_list other).
               keyword_matches (str_lower question) kw' \<longrightarrow> name other = name config)
         \<longrightarrow> infer_tool agent question = Some (name config))
   \<and> (infer_tool agent question = None \<longleftrightarrow>
        (\<forall>config\<in>set (list_tools agent). \<forall>kw\<in>set (keyword_list config).
           \<not> keyword_matches (str_lower question) kw))"
proof (intro conjI allI impI)
  show "infer_tool agent question =
     map_option name
       (find (\<lambda>config. list_ex (keyword_matches (str_lower question)) (keyword_list config))
          (list_tools agent))"
    unfolding infer_tool_def by (rule first_match_find)
next
  fix config kw
  assume a: "config \<in> set (list_tools agent) \<and> kw \<in> set (keyword_list config)
         \<and> sublist (str_lower kw) (str_lower question)
         \<and> (\<forall>other\<in>set (list_tools agent). \<forall>kw'\<in>set (keyword_list other).
               keyword_matches (str_lower question) kw' \<longrightarrow> name other = name config)"
  then have m: "keyword_matches (str_lower question) kw" by (simp add: keyword_matches_iff)
  from a have c: "config \<in> set (list_tools agent)" and k: "kw \<in> set (keyword_list config)"
    and o: "\<forall>other\<in>set (list_tools agent). \<forall>kw'\<in>set (keyword_list other).
               keyword_matches (str_lower question) kw' \<longrightarrow> name other = name config"
    by blast+
  show "infer_tool agent question = Some (name config)"
    unfolding infer_tool_def by (rule first_match_only [OF c k m o])
next
  show "infer_tool agent question = None \<longleftrightarrow>
        (\<forall>config\<in>set (list_tools agent). \<forall>kw\<in>set (keyword_list config).
           \<not> keyword_matches (str_lower question) kw)"
    unfolding infer_tool_def by (rule first_match_None)
qed

text \<open>
  The keyword \<open>community\<close> belongs to one tool only and occurs in the question, yet the
  matcher returns the other tool, whose keyword \<open>rank\<close> occurs too and which comes first.
\<close>

theorem C6_keyword_matcher_counterexample:
  "sublist (str_lower ''community'') (str_lower ''Rank the nodes of each community'')
   \<and> map name
        (filter (\<lambda>config. ''community'' \<in> set (keyword_list config))
           (list_tools
              \<lparr>tool_configs =
                 [(''article_rank'',
                   \<lparr>name = ''article_rank'', description = '''', keyword_list = [''rank''],
                     defaults = Map.empty, summary_builder = None\<rparr>),
                  (''leiden'',
                   \<lparr>name = ''leiden'', description = '''', keyword_list = [''community''],
                     defaults = Map.empty, summary_builder = None\<rparr>)],
               default_identifier_property = ''name'', allowed_tool_names = {},
               use_llm_selector = False\<rparr>))
       = [''leiden'']
   \<and> infer_tool
         \<lparr>tool_configs =
            [(''article_rank'',
              \<lparr>name = ''article_rank'', description = '''', keyword_list = [''rank''],
                defaults = Map.empty, summary_builder = None\<rparr>),
             (''leiden'',
              \<lparr>name = ''leiden'', description = '''', keyword_list = [''community''],
                defaults = Map.empty, summary_builder = None\<rparr>)],
          default_identifier_property = ''name'', allowed_tool_names = {},
          use_llm_selector = False\<rparr>
         ''Rank the nodes of each community''
       = Some ''article_rank''"
proof (intro conjI)
  show "sublist (str_lower ''community'') (str_lower ''Rank the nodes of each community'')"
    by code_simp
next
  show "map name
        (filter (\<lambda>config. ''community'' \<in> set (keyword_list config))
           (list_tools
              \<lparr>tool_configs =
                 [(''article_rank'',
                   \<lparr>name = ''article_rank'', description = '''', keyword_list = [''rank''],
                     defaults = Map.empty, summary_builder = None\<rparr>),
                  (''leiden'',
                   \<lparr>name = ''leiden'', description = '''', keyword_list = [''community''],
                     defaults = Map.empty, summary_builder = None\<rparr>)],
               default_identifier_property = ''name'', allowed_tool_names = {},
               use_llm_selector = False\<rparr>))
       = [''leiden'']"
    by (simp add: list_tools_def)
next
  have m: "keyword_matches (str_lower ''Rank the nodes of each community'') ''rank''"
    unfolding keyword_matches_iff by code_simp
  show "infer_tool
         \<lparr>tool_configs =
            [(''article_rank'',
              \<lparr>name = ''article_rank'', description = '''', keyword_list = [''rank''],
                defaults = Map.empty, summary_builder = None\<rparr>),
             (''leiden'',
              \<lparr>name = ''leiden'', description = '''', keyword_list = [''community''],
                defaults = Map.empty, summary_builder = None\<rparr>)],
          default_identifier_property = ''name'', allowed_tool_names = {},
          use_llm_selector = False\<rparr>
         ''Rank the nodes of each community''
       = Some ''article_rank''"
    by (simp add: infer_tool_def list_tools_def m)
qed

theorem C6_keyword_matcher_witness:
  "infer_tool
         \<lparr>tool_configs =
            [(''article_rank'',
              \<lparr>name = ''article_rank'', description = '''', keyword_list = [''rank''],
                defaults = Map.empty, summary_builder = None\<rparr>),
             (''leiden'',
              \<lparr>name = ''leiden'', description = '''', keyword_list = [''community''],
                defaults = Map.empty, summary_builder = None\<rparr>)],
          default_identifier_property = ''name'', allowed_tool_names = {},
          use_llm_selector = False\<rparr>
         ''Detect COMMUNITY structure''
       = Some ''leiden''
   \<and> infer_tool
         \<lparr>tool_configs =
            [(''article_rank'',
              \<lparr>name = ''article_rank'', description = '''', keyword_list = [''rank''],
                defaults = Map.empty, summary_builder = None\<rparr>),
             (''leiden'',
              \<lparr>name = ''leiden'', description = '''', keyword_list = [''community''],
                defaults = Map.empty, summary_builder = None\<rparr>)],
          default_identifier_property = ''name'', allowed_tool_names = {},
          use_llm_selector = False\<rparr>
         ''How many bridges?''
       = None"
proof -
  let ?r = "\<lparr>name = ''article_rank'', description = '''', keyword_list = [''rank''],
                defaults = Map.empty, summary_builder = None\<rparr>"
  let ?l = "\<lparr>name = ''leiden'', description = '''', keyword_list = [''community''],
                defaults = Map.empty, summary_builder = None\<rparr>"
  let ?A = "\<lparr>tool_configs = [(''article_rank'', ?r), (''leiden'', ?l)],
          default_identifier_property = ''name'', allowed_tool_names = {},
          use_llm_selector = False\<rparr>"
  have lt: "list_tools ?A = [?r, ?l]" by (simp add: list_tools_def)
  have s1: "sublist (str_lower ''community'') (str_lower ''Detect COMMUNITY structure'')"
    by code_simp
  have n1: "\<not> keyword_matches (str_lower ''Detect COMMUNITY structure'') ''rank''"
    unfolding keyword_matches_iff by code_simp
  have n2: "\<not> keyword_matches (str_lower ''How many bridges?'') ''rank''"
    unfolding keyword_matches_iff by code_simp
  have n3: "\<not> keyword_matches (str_lower ''How many bridges?'') ''community''"
    unfolding keyword_matches_iff by code_simp
  have o: "\<forall>other\<in>set (list_tools ?A). \<forall>kw'\<in>set (keyword_list other).
             keyword_matches (str_lower ''Detect COMMUNITY structure'') kw' \<longrightarrow> name other = name ?l"
    unfolding lt using n1 by simp
  have p: "?l \<in> set (list_tools ?A) \<and> ''community'' \<in> set (keyword_list ?l)
         \<and> sublist (str_lower ''community'') (str_lower ''Detect COMMUNITY structure'')
         \<and> (\<forall>other\<in>set (list_tools ?A). \<forall>kw'\<in>set (keyword_list other).
               keyword_matches (str_lower ''Detect COMMUNITY structure'') kw' \<longrightarrow> name other = name ?l)"
    using s1 o unfolding lt by simp
  from C6_keyword_matcher [of ?A "''Detect COMMUNITY structure''"]
  have "\<forall>config kw.
         config \<in> set (list_tools ?A) \<and> kw \<in> set (keyword_list config)
         \<and> sublist (str_lower kw) (str_lower ''Detect COMMUNITY structure'')
         \<and> (\<forall>other\<in>set (list_tools ?A). \<forall>kw'\<in>set (keyword_list other).
               keyword_matches (str_lower ''Detect COMMUNITY structure'') kw' \<longrightarrow> name other = name config)
         \<longrightarrow> infer_tool ?A ''Detect COMMUNITY structure'' = Some (name config)"
    by (elim conjE)
  then have "infer_tool ?A ''Detect COMMUNITY structure'' = Some (name ?l)"
    using p by blast
  then have w1: "infer_tool ?A ''Detect COMMUNITY structure'' = Some ''leiden''" by simp
  have q: "\<forall>config\<in>set (list_tools ?A). \<forall>kw\<in>set (keyword_list config).
           \<not> keyword_matches (str_lower ''How many bridges?'') kw"
    unfolding lt using n2 n3 by simp
  from C6_keyword_matcher [of ?A "''How many bridges?''"]
  have "infer_tool ?A ''How many bridges?'' = None \<longleftrightarrow>
        (\<forall>config\<in>set (list_tools ?A). \<forall>kw\<in>set (keyword_list config).
           \<not> keyword_matches (str_lower ''How many bridges?'') kw)"
    by (elim conjE)
  with q have w2: "infer_tool ?A ''How many bridges?'' = None" by blast
  from w1 w2 show ?thesis by (rule conjI)
qed

section \<open>The router: proofs\<close>

lemma select_tool_cases:
  "select_tool agent env question tool_name_arg =
     (case tool_name_arg of
        Some t \<Rightarrow> ([], Inr (t, Map.empty))
      | None \<Rightarrow>
          if use_llm_selector agent then
            (case select_tool_with_llm env question of
               Some sel \<Rightarrow> ([EvSelectToolWithLLM question], Inr (sel_tool sel, sel_inputs sel))
             | None \<Rightarrow>
                 ([EvSelectToolWithLLM question],
                  Inl (GraphAnalyticsAgentError
                    (''Could not infer a graph analytics tool for this question. ''
                     @ ''The LLM tool selector did not find a suitable tool.''))))
          else
            (case infer_tool agent question of
               Some t \<Rightarrow> ([EvInferTool question], Inr (t, Map.empty))
             | None \<Rightarrow>
                 ([EvInferTool question],
                  Inl (GraphAnalyticsAgentError
                    ''Could not infer a graph analytics tool for this question.''))))"
  unfolding select_tool_def by (simp split: option.splits)

lemma select_tool_no_call:
  "e \<in> set (fst (select_tool agent env question tool_name_arg)) \<Longrightarrow> \<not> is_call_tool e"
  unfolding select_tool_cases by (auto split: option.splits if_splits)

lemma select_tool_infer:
  "e \<in> set (fst (select_tool agent env question tool_name_arg)) \<Longrightarrow> is_infer_tool e \<Longrightarrow>
     \<not> use_llm_selector agent \<and> tool_name_arg = None"
  unfolding select_tool_cases by (auto split: option.splits if_splits)

text \<open>The shape of the log: what selection logged, then at most the two client calls.\<close>

lemma run_log:
  "fst (run agent env question tool_name_arg inputs_arg) =
       fst (select_tool agent env question tool_name_arg)
   \<or> fst (run agent env question tool_name_arg inputs_arg) =
       fst (select_tool agent env question tool_name_arg) @ [EvGetClient]
   \<or> (\<exists>t a. fst (run agent env question tool_name_arg inputs_arg) =
         fst (select_tool agent env question tool_name_arg) @ [EvGetClient, EvCallTool t a])"
  unfolding run_def
  by (cases "select_tool agent env question tool_name_arg")
     (auto simp: Let_def split: sum.splits option.splits prod.splits)

lemma run_infer:
  assumes "e \<in> set (fst (run agent env question tool_name_arg inputs_arg))" "is_infer_tool e"
  shows "\<not> use_llm_selector agent \<and> tool_name_arg = None"
proof -
  from run_log [of agent env question tool_name_arg inputs_arg] assms
  have "e \<in> set (fst (select_tool agent env question tool_name_arg))"
    by (elim disjE exE) auto
  then show ?thesis using assms(2) by (rule select_tool_infer)
qed

text \<open>When the log holds a call of the tool, this is what \<open>run\<close> did.\<close>

lemma run_call_toolD:
  assumes "EvCallTool t a \<in> set (fst (run agent env question tool_name_arg inputs_arg))"
  obtains log0 llm config client where
    "select_tool agent env question tool_name_arg = (log0, Inr (t, llm))"
    "map_of (tool_configs agent) t = Some config"
    "a = prepare_inputs agent config question (Some (combined_inputs llm inputs_arg))"
    "get_client env = Inr client"
    "run agent env question tool_name_arg inputs_arg =
       (log0 @ [EvGetClient, EvCallTool t a],
        case call_tool client t a of
          Inl exc \<Rightarrow>
            Inl (GraphAnalyticsAgentError
              (''Tool call failed for '' @ apostrophe @ t @ apostrophe @ '': '' @ exc_str exc))
        | Inr result_content \<Rightarrow>
            Inr \<lparr>tool_name = t, inputs = a, raw_result = result_content,
                 summary = build_summary (json_dumps env) config result_content question\<rparr>)"
proof -
  obtain log0 res where sel: "select_tool agent env question tool_name_arg = (log0, res)"
    by (cases "select_tool agent env question tool_name_arg")
  have nc: "EvCallTool t a \<notin> set log0"
    using select_tool_no_call [of "EvCallTool t a" agent env question tool_name_arg] sel by auto
  show thesis
  proof (cases res)
    case (Inl err)
    with sel assms nc show ?thesis by (simp add: run_def)
  next
    case (Inr p)
    obtain t' llm where p: "p = (t', llm)" by (cases p)
    show ?thesis
    proof (cases "map_of (tool_configs agent) t'")
      case None
      with sel Inr p assms nc show ?thesis by (simp add: run_def)
    next
      case (Some config)
      show ?thesis
      proof (cases "get_client env")
        case (Inl err)
        with sel Inr p Some assms nc show ?thesis by (simp add: run_def Let_def)
      next
        case client: (Inr client)
        from sel Inr p Some client assms nc
        have eq: "t' = t"
          "a = prepare_inputs agent config question (Some (combined_inputs llm inputs_arg))"
          by (auto simp: run_def Let_def split: sum.splits)
        from sel Inr p Some client eq
        have "run agent env question tool_name_arg inputs_arg =
           (log0 @ [EvGetClient, EvCallTool t a],
            case call_tool client t a of
              Inl exc \<Rightarrow>
                Inl (GraphAnalyticsAgentError
                  (''Tool call failed for '' @ apostrophe @ t @ apostrophe @ '': ''
                   @ exc_str exc))
            | Inr result_content \<Rightarrow>
                Inr \<lparr>tool_name = t, inputs = a, raw_result = result_content,
                     summary = build_summary (json_dumps env) config result_content
                                 question\<rparr>)"
          by (simp add: run_def Let_def split: sum.splits)
        with sel Inr p Some client eq that show ?thesis by simp
      qed
    qed
  qed
qed

lemma run_call_tool_once:
  assumes "EvCallTool t a \<in> set (fst (run agent env question tool_name_arg inputs_arg))"
  shows "length (filter is_call_tool (fst (run agent env question tool_name_arg inputs_arg))) = 1"
proof -
  from assms obtain log0 llm r where
    sel: "select_tool agent env question tool_name_arg = (log0, Inr (t, llm))"
    and run: "run agent env question tool_name_arg inputs_arg
                = (log0 @ [EvGetClient, EvCallTool t a], r)"
    by (rule run_call_toolD)
  have "filter is_call_tool log0 = []"
    using select_tool_no_call [of _ agent env question tool_name_arg] sel
    by (auto simp: filter_empty_conv)
  with run show ?thesis by simp
qed

text \<open>
  Claim C1, as the code has it. The argument mapping sent to execution is the tool's
  defaults, completed by the injected identifier property and the geographic filters
  only at the keys the defaults leave free, then overwritten by the selector's inputs
  and finally by the caller's: read at any key, the caller's entry wins, then the
  selector's, then the default, then the injected identifier or geographic entry.
  With defaults \<open>{a:1}\<close>, selector inputs \<open>{a:2,b:2}\<close> and overrides \<open>{b:3}\<close> the
  result holds \<open>a:2\<close>, \<open>b:3\<close> and the identifier property (and the two geographic
  entries when the question has a geographic term). Whenever \<open>run\<close> calls a tool, the
  arguments it passes are this mapping, for the config of the tool and the inputs that
  selection gave.
\<close>

theorem C1_argument_precedence:
  "prepare_inputs agent config question (Some (combined_inputs llm inputs_arg)) k =
     (case (case inputs_arg of None \<Rightarrow> None | Some given \<Rightarrow> given k) of
        Some v \<Rightarrow> Some v
      | None \<Rightarrow>
          (case llm k of
             Some v \<Rightarrow> Some v
           | None \<Rightarrow>
               (case defaults config k of
                  Some v \<Rightarrow> Some v
                | None \<Rightarrow>
                    if k = ''nodeIdentifierProperty''
                    then Some (PStr (default_identifier_property agent))
                    else if extract_geo_filters question \<noteq> [] \<and> k = ''nodeLabels''
                    then Some (PList [PStr ''Area'', PStr ''Municipality''])
                    else if extract_geo_filters question \<noteq> [] \<and> k = ''filterNames''
                    then Some (PList (map PStr (extract_geo_filters question)))
                    else None)))
   \<and> prepare_inputs agent (config\<lparr>defaults := [''a'' \<mapsto> PInt 1]\<rparr>) question
         (Some (combined_inputs [''a'' \<mapsto> PInt 2, ''b'' \<mapsto> PInt 2] (Some [''b'' \<mapsto> PInt 3])))
       = (if extract_geo_filters question = []
          then [''a'' \<mapsto> PInt 2, ''b'' \<mapsto> PInt 3,
                ''nodeIdentifierProperty'' \<mapsto> PStr (default_identifier_property agent)]
          else [''a'' \<mapsto> PInt 2, ''b'' \<mapsto> PInt 3,
                ''nodeIdentifierProperty'' \<mapsto> PStr (default_identifier_property agent),
                ''nodeLabels'' \<mapsto> PList [PStr ''Area'', PStr ''Municipality''],
                ''filterNames'' \<mapsto> PList (map PStr (extract_geo_filters question))])
   \<and> (EvCallTool t a \<in> set (fst (run agent env question tool_name_arg inputs_arg)) \<longrightarrow>
         (\<exists>log0 selected cfg.
            select_tool agent env question tool_name_arg = (log0, Inr (t, selected))
            \<and> map_of (tool_configs agent) t = Some cfg
            \<and> a = prepare_inputs agent cfg question (Some (combined_inputs selected inputs_arg))))"
proof (intro conjI)
  show "prepare_inputs agent config question (Some (combined_inputs llm inputs_arg)) k =
     (case (case inputs_arg of None \<Rightarrow> None | Some given \<Rightarrow> given k) of
        Some v \<Rightarrow> Some v
      | None \<Rightarrow>
          (case llm k of
             Some v \<Rightarrow> Some v
           | None \<Rightarrow>
               (case defaults config k of
                  Some v \<Rightarrow> Some v
                | None \<Rightarrow>
                    if k = ''nodeIdentifierProperty''
                    then Some (PStr (default_identifier_property agent))
                    else if extract_geo_filters question \<noteq> [] \<and> k = ''nodeLabels''
                    then Some (PList [PStr ''Area'', PStr ''Municipality''])
                    else if extract_geo_filters question \<noteq> [] \<and> k = ''filterNames''
                    then Some (PList (map PStr (extract_geo_filters question)))
                    else None)))"
    unfolding prepare_inputs_lookup combined_inputs_lookup
    by (simp split: option.splits)
next
  show "prepare_inputs agent (config\<lparr>defaults := [''a'' \<mapsto> PInt 1]\<rparr>) question
         (Some (combined_inputs [''a'' \<mapsto> PInt 2, ''b'' \<mapsto> PInt 2] (Some [''b'' \<mapsto> PInt 3])))
       = (if extract_geo_filters question = []
          then [''a'' \<mapsto> PInt 2, ''b'' \<mapsto> PInt 3,
                ''nodeIdentifierProperty'' \<mapsto> PStr (default_identifier_property agent)]
          else [''a'' \<mapsto> PInt 2, ''b'' \<mapsto> PInt 3,
                ''nodeIdentifierProperty'' \<mapsto> PStr (default_identifier_property agent),
                ''nodeLabels'' \<mapsto> PList [PStr ''Area'', PStr ''Municipality''],
                ''filterNames'' \<mapsto> PList (map PStr (extract_geo_filters question))])"
  proof (rule ext)
    fix k
    show "prepare_inputs agent (config\<lparr>defaults := [''a'' \<mapsto> PInt 1]\<rparr>) question
         (Some (combined_inputs [''a'' \<mapsto> PInt 2, ''b'' \<mapsto> PInt 2] (Some [''b'' \<mapsto> PInt 3]))) k
       = (if extract_geo_filters question = []
          then [''a'' \<mapsto> PInt 2, ''b'' \<mapsto> PInt 3,
                ''nodeIdentifierProperty'' \<mapsto> PStr (default_identifier_property agent)]
          else [''a'' \<mapsto> PInt 2, ''b'' \<mapsto> PInt 3,
                ''nodeIdentifierProperty'' \<mapsto> PStr (default_identifier_property agent),
                ''nodeLabels'' \<mapsto> PList [PStr ''Area'', PStr ''Municipality''],
                ''filterNames'' \<mapsto> PList (map PStr (extract_geo_filters question))]) k"
      unfolding prepare_inputs_lookup combined_inputs_lookup
      by simp
  qed
next
  show "EvCallTool t a \<in> set (fst (run agent env question tool_name_arg inputs_arg)) \<longrightarrow>
         (\<exists>log0 selected cfg.
            select_tool agent env question tool_name_arg = (log0, Inr (t, selected))
            \<and> map_of (tool_configs agent) t = Some cfg
            \<and> a = prepare_inputs agent cfg question (Some (combined_inputs selected inputs_arg)))"
  proof
    assume "EvCallTool t a \<in> set (fst (run agent env question tool_name_arg inputs_arg))"
    then obtain log0 selected cfg where
      "select_tool agent env question tool_name_arg = (log0, Inr (t, selected))"
      "map_of (tool_configs agent) t = Some cfg"
      "a = prepare_inputs agent cfg question (Some (combined_inputs selected inputs_arg))"
      by (rule run_call_toolD)
    then show "\<exists>log0 selected cfg.
            select_tool agent env question tool_name_arg = (log0, Inr (t, selected))
            \<and> map_of (tool_configs agent) t = Some cfg
            \<and> a = prepare_inputs agent cfg question (Some (combined_inputs selected inputs_arg))"
      by blast
  qed
qed

text \<open>
  With those defaults, selector inputs and overrides the result is not \<open>{a:2,b:3}\<close>: it
  also holds the identifier property.
\<close>

theorem C1_argument_precedence_counterexample:
  "prepare_inputs
       \<lparr>tool_configs =
            [(''t'', \<lparr>name = ''t'', description = '''', keyword_list = [],
                      defaults = [''a'' \<mapsto> PInt 1], summary_builder = None\<rparr>)],
          default_identifier_property = ''name'', allowed_tool_names = {},
          use_llm_selector = True\<rparr>
       \<lparr>name = ''t'', description = '''', keyword_list = [],
         defaults = [''a'' \<mapsto> PInt 1], summary_builder = None\<rparr>
       ''''
       (Some (combined_inputs [''a'' \<mapsto> PInt 2, ''b'' \<mapsto> PInt 2] (Some [''b'' \<mapsto> PInt 3])))
     \<noteq> [''a'' \<mapsto> PInt 2, ''b'' \<mapsto> PInt 3]"
proof
  assume eq: "prepare_inputs
       \<lparr>tool_configs =
            [(''t'', \<lparr>name = ''t'', description = '''', keyword_list = [],
                      defaults = [''a'' \<mapsto> PInt 1], summary_builder = None\<rparr>)],
          default_identifier_property = ''name'', allowed_tool_names = {},
          use_llm_selector = True\<rparr>
       \<lparr>name = ''t'', description = '''', keyword_list = [],
         defaults = [''a'' \<mapsto> PInt 1], summary_builder = None\<rparr>
       ''''
       (Some (combined_inputs [''a'' \<mapsto> PInt 2, ''b'' \<mapsto> PInt 2] (Some [''b'' \<mapsto> PInt 3])))
     = [''a'' \<mapsto> PInt 2, ''b'' \<mapsto> PInt 3]"
  have "prepare_inputs
       \<lparr>tool_configs =
            [(''t'', \<lparr>name = ''t'', description = '''', keyword_list = [],
                      defaults = [''a'' \<mapsto> PInt 1], summary_builder = None\<rparr>)],
          default_identifier_property = ''name'', allowed_tool_names = {},
          use_llm_selector = True\<rparr>
       \<lparr>name = ''t'', description = '''', keyword_list = [],
         defaults = [''a'' \<mapsto> PInt 1], summary_builder = None\<rparr>
       ''''
       (Some (combined_inputs [''a'' \<mapsto> PInt 2, ''b'' \<mapsto> PInt 2] (Some [''b'' \<mapsto> PInt 3])))
       ''nodeIdentifierProperty'' = Some (PStr ''name'')"
    by (simp add: prepare_inputs_lookup combined_inputs_lookup)
  with eq show False by simp
qed

text \<open>
  The same inputs through \<open>run\<close>: the selector picks the tool and suggests
  \<open>{a:2,b:2}\<close>, the caller passes \<open>{b:3}\<close>.
\<close>

theorem C1_argument_precedence_witness:
  "EvCallTool ''t''
       [''a'' \<mapsto> PInt 2, ''b'' \<mapsto> PInt 3, ''nodeIdentifierProperty'' \<mapsto> PStr ''name'']
     \<in> set (fst (run
           \<lparr>tool_configs =
              [(''t'', \<lparr>name = ''t'', description = '''', keyword_list = [],
                        defaults = [''a'' \<mapsto> PInt 1], summary_builder = None\<rparr>)],
            default_identifier_property = ''name'', allowed_tool_names = {},
            use_llm_selector = True\<rparr>
           \<lparr>select_tool_with_llm =
              (\<lambda>q. Some \<lparr>sel_tool = ''t'',
                           sel_inputs = [''a'' \<mapsto> PInt 2, ''b'' \<mapsto> PInt 2],
                           sel_reason = PStr ''only tool''\<rparr>),
            get_client = Inr \<lparr>call_tool = (\<lambda>t a. Inr [])\<rparr>,
            json_dumps = (\<lambda>v. ''[]'')\<rparr>
           '''' None (Some [''b'' \<mapsto> PInt 3])))
   \<and> (\<exists>log0 selected cfg.
         select_tool
           \<lparr>tool_configs =
              [(''t'', \<lparr>name = ''t'', description = '''', keyword_list = [],
                        defaults = [''a'' \<mapsto> PInt 1], summary_builder = None\<rparr>)],
            default_identifier_property = ''name'', allowed_tool_names = {},
            use_llm_selector = True\<rparr>
           \<lparr>select_tool_with_llm =
              (\<lambda>q. Some \<lparr>sel_tool = ''t'',
                           sel_inputs = [''a'' \<mapsto> PInt 2, ''b'' \<mapsto> PInt 2],
                           sel_reason = PStr ''only tool''\<rparr>),
            get_client = Inr \<lparr>call_tool = (\<lambda>t a. Inr [])\<rparr>,
            json_dumps = (\<lambda>v. ''[]'')\<rparr>
           '''' None = (log0, Inr (''t'', selected))
         \<and> map_of [(''t'', \<lparr>name = ''t'', description = '''', keyword_list = [],
                        defaults = [''a'' \<mapsto> PInt 1], summary_builder = None\<rparr>)] ''t''
             = Some cfg
         \<and> [''a'' \<mapsto> PInt 2, ''b'' \<mapsto> PInt 3, ''nodeIdentifierProperty'' \<mapsto> PStr ''name'']
             = prepare_inputs
                 \<lparr>tool_configs =
                    [(''t'', \<lparr>name = ''t'', description = '''', keyword_list = [],
                        defaults = [''a'' \<mapsto> PInt 1], summary_builder = None\<rparr>)],
                  default_identifier_property = ''name'', allowed_tool_names = {},
                  use_llm_selector = True\<rparr>
                 cfg '''' (Some (combined_inputs selected (Some [''b'' \<mapsto> PInt 3]))))"
proof -
  let ?c = "\<lparr>name = ''t'', description = '''', keyword_list = [],
                        defaults = [''a'' \<mapsto> PInt 1], summary_builder = None\<rparr>"
  let ?A = "\<lparr>tool_configs = [(''t'', ?c)],
            default_identifier_property = ''name'', allowed_tool_names = {},
            use_llm_selector = True\<rparr>"
  let ?E = "\<lparr>select_tool_with_llm =
              (\<lambda>q. Some \<lparr>sel_tool = ''t'',
                           sel_inputs = [''a'' \<mapsto> PInt 2, ''b'' \<mapsto> PInt 2],
                           sel_reason = PStr ''only tool''\<rparr>),
            get_client = Inr \<lparr>call_tool = (\<lambda>t a. Inr [])\<rparr>,
            json_dumps = (\<lambda>v. ''[]'')\<rparr>"
  let ?a = "[''a'' \<mapsto> PInt 2, ''b'' \<mapsto> PInt 3, ''nodeIdentifierProperty'' \<mapsto> PStr ''name'']"
  have geo: "extract_geo_filters '''' = []" by code_simp
  from C1_argument_precedence
    [where agent = ?A and config = ?c and question = "''''", THEN conjunct2, THEN conjunct1]
  have "prepare_inputs ?A (?c\<lparr>defaults := [''a'' \<mapsto> PInt 1]\<rparr>) ''''
         (Some (combined_inputs [''a'' \<mapsto> PInt 2, ''b'' \<mapsto> PInt 2] (Some [''b'' \<mapsto> PInt 3])))
        = (if extract_geo_filters '''' = []
          then [''a'' \<mapsto> PInt 2, ''b'' \<mapsto> PInt 3,
                ''nodeIdentifierProperty'' \<mapsto> PStr (default_identifier_property ?A)]
          else [''a'' \<mapsto> PInt 2, ''b'' \<mapsto> PInt 3,
                ''nodeIdentifierProperty'' \<mapsto> PStr (default_identifier_property ?A),
                ''nodeLabels'' \<mapsto> PList [PStr ''Area'', PStr ''Municipality''],
                ''filterNames'' \<mapsto> PList (map PStr (extract_geo_filters ''''))])" .
  then have p: "prepare_inputs ?A ?c ''''
         (Some (combined_inputs [''a'' \<mapsto> PInt 2, ''b'' \<mapsto> PInt 2] (Some [''b'' \<mapsto> PInt 3])))
        = ?a"
    by (simp add: geo)
  have ev: "EvCallTool ''t'' ?a \<in> set (fst (run ?A ?E '''' None (Some [''b'' \<mapsto> PInt 3])))"
    by (simp add: run_def select_tool_cases Let_def p)
  from C1_argument_precedence
    [where agent = ?A and question = "''''" and inputs_arg = "Some [''b'' \<mapsto> PInt 3]"
       and t = "''t''" and a = ?a and env = ?E and tool_name_arg = None,
     THEN conjunct2, THEN conjunct2]
  have "EvCallTool ''t'' ?a \<in> set (fst (run ?A ?E '''' None (Some [''b'' \<mapsto> PInt 3]))) \<longrightarrow>
         (\<exists>log0 selected cfg.
            select_tool ?A ?E '''' None = (log0, Inr (''t'', selected))
            \<and> map_of (tool_configs ?A) ''t'' = Some cfg
            \<and> ?a = prepare_inputs ?A cfg '''' (Some (combined_inputs selected (Some [''b'' \<mapsto> PInt 3]))))" .
  with ev have "\<exists>log0 selected cfg.
            select_tool ?A ?E '''' None = (log0, Inr (''t'', selected))
            \<and> map_of (tool_configs ?A) ''t'' = Some cfg
            \<and> ?a = prepare_inputs ?A cfg '''' (Some (combined_inputs selected (Some [''b'' \<mapsto> PInt 3])))"
    by (rule rev_mp)
  then have "\<exists>log0 selected cfg.
            select_tool ?A ?E '''' None = (log0, Inr (''t'', selected))
            \<and> map_of [(''t'', ?c)] ''t'' = Some cfg
            \<and> ?a = prepare_inputs ?A cfg '''' (Some (combined_inputs selected (Some [''b'' \<mapsto> PInt 3])))"
    by simp
  with ev show ?thesis by (rule conjI)
qed

text \<open>
  Claim C2. With the LLM selector enabled and no tool name given, a \<open>None\<close> from the
  selector makes \<open>run\<close> raise the "selector did not find a suitable tool" error, the
  selector's call being the only call made. The keyword matcher is called only when the
  selector is disabled and no tool name is given; there, its \<open>None\<close> makes \<open>run\<close> raise too.
\<close>

theorem C2_selection_exhausted:
  "(use_llm_selector agent \<and> select_tool_with_llm env question = None \<longrightarrow>
      run agent env question None inputs_arg =
        ([EvSelectToolWithLLM question],
         Inl (GraphAnalyticsAgentError
           (''Could not infer a graph analytics tool for this question. ''
            @ ''The LLM tool selector did not find a suitable tool.''))))
   \<and> (\<forall>e\<in>set (fst (run agent env question tool_name_arg inputs_arg)).
         is_infer_tool e \<longrightarrow> \<not> use_llm_selector agent \<and> tool_name_arg = None)
   \<and> (\<not> use_llm_selector agent \<and> infer_tool agent question = None \<longrightarrow>
         run agent env question None inputs_arg =
           ([EvInferTool question],
            Inl (GraphAnalyticsAgentError
              ''Could not infer a graph analytics tool for this question.'')))"
proof (intro conjI)
  show "use_llm_selector agent \<and> select_tool_with_llm env question = None \<longrightarrow>
      run agent env question None inputs_arg =
        ([EvSelectToolWithLLM question],
         Inl (GraphAnalyticsAgentError
           (''Could not infer a graph analytics tool for this question. ''
            @ ''The LLM tool selector did not find a suitable tool.'')))"
    by (simp add: run_def select_tool_cases)
next
  show "\<forall>e\<in>set (fst (run agent env question tool_name_arg inputs_arg)).
         is_infer_tool e \<longrightarrow> \<not> use_llm_selector agent \<and> tool_name_arg = None"
    using run_infer [of _ agent env question tool_name_arg inputs_arg] by blast
next
  show "\<not> use_llm_selector agent \<and> infer_tool agent question = None \<longrightarrow>
         run agent env question None inputs_arg =
           ([EvInferTool question],
            Inl (GraphAnalyticsAgentError
              ''Could not infer a graph analytics tool for this question.''))"
    by (simp add: run_def select_tool_cases)
qed

theorem C2_selection_exhausted_witness:
  "run \<lparr>tool_configs =
          [(''article_rank'',
            \<lparr>name = ''article_rank'', description = '''', keyword_list = [''rank''],
              defaults = Map.empty, summary_builder = None\<rparr>)],
        default_identifier_property = ''name'', allowed_tool_names = {},
        use_llm_selector = True\<rparr>
      \<lparr>select_tool_with_llm = (\<lambda>q. None),
        get_client = Inr \<lparr>call_tool = (\<lambda>t a. Inr [])\<rparr>,
        json_dumps = (\<lambda>v. ''[]'')\<rparr>
      ''Who ranks first?'' None None
     = ([EvSelectToolWithLLM ''Who ranks first?''],
        Inl (GraphAnalyticsAgentError
          (''Could not infer a graph analytics tool for this question. ''
           @ ''The LLM tool selector did not find a suitable tool.'')))
   \<and> run \<lparr>tool_configs =
          [(''article_rank'',
            \<lparr>name = ''article_rank'', description = '''', keyword_list = [''rank''],
              defaults = Map.empty, summary_builder = None\<rparr>)],
        default_identifier_property = ''name'', allowed_tool_names = {},
        use_llm_selector = False\<rparr>
      \<lparr>select_tool_with_llm = (\<lambda>q. None),
        get_client = Inr \<lparr>call_tool = (\<lambda>t a. Inr [])\<rparr>,
        json_dumps = (\<lambda>v. ''[]'')\<rparr>
      ''How many bridges?'' None None
     = ([EvInferTool ''How many bridges?''],
        Inl (GraphAnalyticsAgentError
          ''Could not infer a graph analytics tool for this question.''))
   \<and> \<not> use_llm_selector
         \<lparr>tool_configs =
          [(''article_rank'',
            \<lparr>name = ''article_rank'', description = '''', keyword_list = [''rank''],
              defaults = Map.empty, summary_builder = None\<rparr>)],
          default_identifier_property = ''name'', allowed_tool_names = {},
          use_llm_selector = False\<rparr>"
proof -
  let ?c = "\<lparr>name = ''article_rank'', description = '''', keyword_list = [''rank''],
              defaults = Map.empty, summary_builder = None\<rparr>"
  let ?A = "\<lparr>tool_configs = [(''article_rank'', ?c)],
        default_identifier_property = ''name'', allowed_tool_names = {},
        use_llm_selector = True\<rparr>"
  let ?B = "\<lparr>tool_configs = [(''article_rank'', ?c)],
        default_identifier_property = ''name'', allowed_tool_names = {},
        use_llm_selector = False\<rparr>"
  let ?E = "\<lparr>select_tool_with_llm = (\<lambda>q. None),
        get_client = Inr \<lparr>call_tool = (\<lambda>t a. Inr [])\<rparr>,
        json_dumps = (\<lambda>v. ''[]'')\<rparr>"
  have n: "\<not> keyword_matches (str_lower ''How many bridges?'') ''rank''"
    unfolding keyword_matches_iff by code_simp
  have i: "infer_tool ?B ''How many bridges?'' = None"
    by (simp add: infer_tool_def list_tools_def n)
  from C2_selection_exhausted [of ?A ?E "''Who ranks first?''" None None]
  have w1: "run ?A ?E ''Who ranks first?'' None None
     = ([EvSelectToolWithLLM ''Who ranks first?''],
        Inl (GraphAnalyticsAgentError
          (''Could not infer a graph analytics tool for this question. ''
           @ ''The LLM tool selector did not find a suitable tool.'')))"
    by simp
  from C2_selection_exhausted [of ?B ?E "''How many bridges?''" None None] i
  have w2: "run ?B ?E ''How many bridges?'' None None
     = ([EvInferTool ''How many bridges?''],
        Inl (GraphAnalyticsAgentError
          ''Could not infer a graph analytics tool for this question.''))"
    by simp
  have "is_infer_tool (EvInferTool ''How many bridges?'')" by simp
  with C2_selection_exhausted [of ?B ?E "''How many bridges?''" None None] w2
  have w3: "\<not> use_llm_selector ?B" by simp
  from w1 w2 w3 show ?thesis by (intro conjI)
qed

text \<open>
  Claim C3. When \<open>run\<close> has called the tool and the call raised, \<open>run\<close> raises a
  \<open>GraphAnalyticsAgentError\<close> whose message contains the tool name and the message of
  the exception raised; no result is returned, and the tool was called once.
\<close>

theorem C3_execution_failure:
  "EvCallTool t a \<in> set (fst (run agent env question tool_name_arg inputs_arg))
   \<and> get_client env = Inr client \<and> call_tool client t a = Inl exc \<longrightarrow>
     snd (run agent env question tool_name_arg inputs_arg) =
       Inl (GraphAnalyticsAgentError
         (''Tool call failed for '' @ apostrophe @ t @ apostrophe @ '': '' @ exc_str exc))
     \<and> sublist t (''Tool call failed for '' @ apostrophe @ t @ apostrophe @ '': '' @ exc_str exc)
     \<and> sublist (exc_str exc)
          (''Tool call failed for '' @ apostrophe @ t @ apostrophe @ '': '' @ exc_str exc)
     \<and> length (filter is_call_tool (fst (run agent env question tool_name_arg inputs_arg))) = 1"
proof (intro impI)
  assume a: "EvCallTool t a \<in> set (fst (run agent env question tool_name_arg inputs_arg))
   \<and> get_client env = Inr client \<and> call_tool client t a = Inl exc"
  then have ev: "EvCallTool t a \<in> set (fst (run agent env question tool_name_arg inputs_arg))"
    and cl: "get_client env = Inr client" and ex: "call_tool client t a = Inl exc"
    by blast+
  from ev obtain log0 llm config client' where
    "select_tool agent env question tool_name_arg = (log0, Inr (t, llm))"
    "map_of (tool_configs agent) t = Some config"
    "a = prepare_inputs agent config question (Some (combined_inputs llm inputs_arg))"
    "get_client env = Inr client'"
    "run agent env question tool_name_arg inputs_arg =
       (log0 @ [EvGetClient, EvCallTool t a],
        case call_tool client' t a of
          Inl exc \<Rightarrow>
            Inl (GraphAnalyticsAgentError
              (''Tool call failed for '' @ apostrophe @ t @ apostrophe @ '': '' @ exc_str exc))
        | Inr result_content \<Rightarrow>
            Inr \<lparr>tool_name = t, inputs = a, raw_result = result_content,
                 summary = build_summary (json_dumps env) config result_content question\<rparr>)"
    by (rule run_call_toolD)
  with cl ex have r: "snd (run agent env question tool_name_arg inputs_arg) =
       Inl (GraphAnalyticsAgentError
         (''Tool call failed for '' @ apostrophe @ t @ apostrophe @ '': '' @ exc_str exc))"
    by simp
  have s1: "sublist t (''Tool call failed for '' @ apostrophe @ t @ apostrophe @ '': ''
                      @ exc_str exc)"
    using sublist_appendI [of t "''Tool call failed for '' @ apostrophe"
        "apostrophe @ '': '' @ exc_str exc"] by simp
  have s2: "sublist (exc_str exc)
          (''Tool call failed for '' @ apostrophe @ t @ apostrophe @ '': '' @ exc_str exc)"
    using sublist_append_leftI
      [of "exc_str exc" "''Tool call failed for '' @ apostrophe @ t @ apostrophe @ '': ''"]
    by simp
  from ev have once:
    "length (filter is_call_tool (fst (run agent env question tool_name_arg inputs_arg))) = 1"
    by (rule run_call_tool_once)
  from r s1 s2 once show "snd (run agent env question tool_name_arg inputs_arg) =
       Inl (GraphAnalyticsAgentError
         (''Tool call failed for '' @ apostrophe @ t @ apostrophe @ '': '' @ exc_str exc))
     \<and> sublist t (''Tool call failed for '' @ apostrophe @ t @ apostrophe @ '': '' @ exc_str exc)
     \<and> sublist (exc_str exc)
          (''Tool call failed for '' @ apostrophe @ t @ apostrophe @ '': '' @ exc_str exc)
     \<and> length (filter is_call_tool (fst (run agent env question tool_name_arg inputs_arg))) = 1"
    by (intro conjI)
qed

theorem C3_execution_failure_witness:
  "snd (run \<lparr>tool_configs =
               [(''article_rank'',
                 \<lparr>name = ''article_rank'', description = '''', keyword_list = [''rank''],
                   defaults = Map.empty, summary_builder = None\<rparr>)],
             default_identifier_property = ''name'', allowed_tool_names = {},
             use_llm_selector = True\<rparr>
           \<lparr>select_tool_with_llm = (\<lambda>q. None),
             get_client = Inr \<lparr>call_tool = (\<lambda>t a. Inl (PyException ''connection lost''))\<rparr>,
             json_dumps = (\<lambda>v. ''[]'')\<rparr>
           ''Who ranks first?'' (Some ''article_rank'') None)
     = Inl (GraphAnalyticsAgentError
         (''Tool call failed for '' @ apostrophe @ ''article_rank'' @ apostrophe
          @ '': connection lost''))
   \<and> length (filter is_call_tool
        (fst (run \<lparr>tool_configs =
               [(''article_rank'',
                 \<lparr>name = ''article_rank'', description = '''', keyword_list = [''rank''],
                   defaults = Map.empty, summary_builder = None\<rparr>)],
             default_identifier_property = ''name'', allowed_tool_names = {},
             use_llm_selector = True\<rparr>
           \<lparr>select_tool_with_llm = (\<lambda>q. None),
             get_client = Inr \<lparr>call_tool = (\<lambda>t a. Inl (PyException ''connection lost''))\<rparr>,
             json_dumps = (\<lambda>v. ''[]'')\<rparr>
           ''Who ranks first?'' (Some ''article_rank'') None))) = 1"
proof -
  let ?c = "\<lparr>name = ''article_rank'', description = '''', keyword_list = [''rank''],
                   defaults = Map.empty, summary_builder = None\<rparr>"
  let ?A = "\<lparr>tool_configs = [(''article_rank'', ?c)],
             default_identifier_property = ''name'', allowed_tool_names = {},
             use_llm_selector = True\<rparr>"
  let ?client = "\<lparr>call_tool = (\<lambda>t a. Inl (PyException ''connection lost''))\<rparr>"
  let ?E = "\<lparr>select_tool_with_llm = (\<lambda>q. None), get_client = Inr ?client,
             json_dumps = (\<lambda>v. ''[]'')\<rparr>"
  let ?a = "prepare_inputs ?A ?c ''Who ranks first?'' (Some (combined_inputs Map.empty None))"
  have ev: "EvCallTool ''article_rank'' ?a
              \<in> set (fst (run ?A ?E ''Who ranks first?'' (Some ''article_rank'') None))"
    by (simp add: run_def select_tool_cases Let_def)
  have cl: "get_client ?E = Inr ?client" by simp
  have ex: "call_tool ?client ''article_rank'' ?a = Inl (PyException ''connection lost'')"
    by simp
  from C3_execution_failure
    [of "''article_rank''" ?a ?A ?E "''Who ranks first?''" "Some ''article_rank''" None ?client
      "PyException ''connection lost''"] ev cl ex
  show ?thesis by simp
qed

section \<open>Summaries: proofs\<close>



section \<open>Schema digest: proofs\<close>

lemma split_on_nonempty: "split_on c s \<noteq> []"
  by (induction s) (auto split: list.splits)

lemma split_on_no_sep: "p \<in> set (split_on c s) \<Longrightarrow> c \<notin> set p"
proof (induction s arbitrary: p)
  case Nil
  then show ?case by simp
next
  case (Cons x xs)
  show ?case
  proof (cases "x = c")
    case True
    with Cons show ?thesis by auto
  next
    case False
    obtain q qs where sp: "split_on c xs = q # qs"
      using split_on_nonempty [of c xs] by (cases "split_on c xs") auto
    with Cons.prems False have "p = x # q \<or> p \<in> set qs" by auto
    with Cons.IH sp False show ?thesis by auto
  qed
qed

lemma split_on_sublist: "p \<in> set (split_on c s) \<Longrightarrow> sublist p s"
proof (induction s arbitrary: p)
  case Nil
  then show ?case by simp
next
  case (Cons x xs)
  show ?case
  proof (cases "x = c")
    case True
    with Cons.prems have "p = [] \<or> p \<in> set (split_on c xs)" by auto
    then show ?thesis
    proof
      assume "p = []" then show ?thesis by simp
    next
      assume "p \<in> set (split_on c xs)"
      then have "sublist p xs" by (rule Cons.IH)
      then show ?thesis by (simp add: sublist_Cons_right)
    qed
  next
    case False
    obtain q qs where sp: "split_on c xs = q # qs"
      using split_on_nonempty [of c xs] by (cases "split_on c xs") auto
    with Cons.prems False have "p = x # q \<or> p \<in> set qs" by auto
    then show ?thesis
    proof
      assume p: "p = x # q"
      have "prefix q xs" using sp
      proof (induction xs arbitrary: q qs)
        case Nil
        then show ?case by simp
      next
        case (Cons y ys)
        show ?case
        proof (cases "y = c")
          case True
          with Cons.prems show ?thesis by simp
        next
          case False
          obtain r rs where "split_on c ys = r # rs"
            using split_on_nonempty [of c ys] by (cases "split_on c ys") auto
          with Cons False show ?thesis by auto
        qed
      qed
      with p have "prefix p (x # xs)" by simp
      then show ?thesis by (rule prefix_imp_sublist)
    next
      assume "p \<in> set qs"
      with sp have "p \<in> set (split_on c xs)" by simp
      then have "sublist p xs" by (rule Cons.IH)
      then show ?thesis by (simp add: sublist_Cons_right)
    qed
  qed
qed

lemma split_on_length: "c \<in> set s \<Longrightarrow> 2 \<le> length (split_on c s)"
proof (induction s)
  case Nil
  then show ?case by simp
next
  case (Cons x xs)
  obtain q qs where sp: "split_on c xs = q # qs"
    using split_on_nonempty [of c xs] by (cases "split_on c xs") auto
  show ?case
  proof (cases "x = c")
    case True
    with sp show ?thesis by simp
  next
    case False
    with Cons.prems have "c \<in> set xs" by simp
    with Cons.IH sp False show ?thesis by simp
  qed
qed

lemma split_on_none: "c \<notin> set s \<Longrightarrow> split_on c s = [s]"
  by (induction s) auto

lemma split_on_append_sep: "split_on c (xs @ c # ys) = split_on c xs @ split_on c ys"
proof (induction xs)
  case Nil
  then show ?case by simp
next
  case (Cons x xs)
  obtain q qs where sp: "split_on c xs = q # qs"
    using split_on_nonempty [of c xs] by (cases "split_on c xs") auto
  with Cons show ?case by simp
qed

lemma has_header_sublist: "sublist a b \<Longrightarrow> has_header a \<Longrightarrow> has_header b"
  unfolding has_header_def list_ex_iff by (blast intro: sublist_trans)

lemma backtick_name_sublist:
  assumes "backtick_name line = Some l"
  shows "sublist l line"
proof -
  from assms have m: "CHR 0x60 \<in> set line" and l: "l = split_on (CHR 0x60) line ! 1"
    by (auto simp: backtick_name_def split: if_splits)
  from m have "1 < length (split_on (CHR 0x60) line)"
    using split_on_length [of "CHR 0x60" line] by simp
  then have "l \<in> set (split_on (CHR 0x60) line)" unfolding l by (rule nth_mem)
  then show ?thesis by (rule split_on_sublist)
qed

lemma strip_ws_sublist: "sublist (strip_ws line) line"
proof -
  have "sublist (dropWhile is_space (rev (dropWhile is_space line))) (rev (dropWhile is_space line))"
    by (rule sublist_dropWhile)
  then have "sublist (strip_ws line) (dropWhile is_space line)"
    unfolding strip_ws_def by (simp add: sublist_rev_left)
  moreover have "sublist (dropWhile is_space line) line" by (rule sublist_dropWhile)
  ultimately show ?thesis by (rule sublist_trans)
qed

lemma sublist_no_char: "sublist a b \<Longrightarrow> c \<notin> set b \<Longrightarrow> c \<notin> set a"
  using set_mono_sublist by fastforce

lemma clean_sublist:
  assumes "sublist a b" "clean b"
  shows "clean a"
proof -
  from assms(2) have n: "CHR 0x0A \<notin> set b" and h: "\<not> has_header b"
    by (simp_all add: clean_def)
  from assms(1) n have "CHR 0x0A \<notin> set a" by (rule sublist_no_char)
  moreover from assms(1) h have "\<not> has_header a" using has_header_sublist by blast
  ultimately show ?thesis by (simp add: clean_def)
qed

lemma scan_line_header:
  "has_header line \<Longrightarrow>
     node_labels (scan_line st line) = node_labels st
     \<and> rel_types (scan_line st line) = rel_types st
     \<and> relationships (scan_line st line) = relationships st"
  unfolding has_header_def section_headers_def scan_line_def by auto

lemma scan_line_no_header:
  "\<not> has_header line \<Longrightarrow>
     scan_line st line =
       (if in_node_props st \<and> prefix [CHR '':'', CHR 0x60] (strip_ws line) then
          (case backtick_name line of
             Some label \<Rightarrow> if label \<noteq> [] then st\<lparr>node_labels := node_labels st @ [label]\<rparr> else st
           | None \<Rightarrow> st)
        else if in_rel_props st \<and> prefix [CHR '':'', CHR 0x60] (strip_ws line) then
          (case backtick_name line of
             Some rel_type \<Rightarrow>
               if rel_type \<noteq> [] then st\<lparr>rel_types := rel_types st @ [rel_type]\<rparr> else st
           | None \<Rightarrow> st)
        else if in_rels st \<and> sublist '')-[:'' line then
          st\<lparr>relationships := relationships st @ [strip_ws line]\<rparr>
        else st)"
  unfolding has_header_def section_headers_def scan_line_def by simp

lemma scan_line_clean:
  assumes "CHR 0x0A \<notin> set line" "clean_state st"
  shows "clean_state (scan_line st line)"
proof (cases "has_header line")
  case True
  from scan_line_header [OF True, of st] assms(2) show ?thesis
    by (simp add: clean_state_def)
next
  case False
  with assms(1) have cl: "clean line" by (simp add: clean_def)
  have b: "clean l" if "backtick_name line = Some l" for l
    using backtick_name_sublist [OF that] cl by (rule clean_sublist)
  have s: "clean (strip_ws line)"
    using strip_ws_sublist cl by (rule clean_sublist)
  show ?thesis
    unfolding scan_line_no_header [OF False]
    using assms(2) b s by (auto simp: clean_state_def split: option.splits)
qed

lemma foldl_scan_clean:
  "\<forall>line\<in>set ls. CHR 0x0A \<notin> set line \<Longrightarrow> clean_state st \<Longrightarrow>
     clean_state (foldl scan_line st ls)"
  by (induction ls arbitrary: st) (simp_all add: scan_line_clean)

lemma scanned_clean:
  "clean_state (foldl scan_line initial_scan (split_on (CHR 0x0A) s))"
proof (rule foldl_scan_clean)
  show "\<forall>line\<in>set (split_on (CHR 0x0A) s). CHR 0x0A \<notin> set line"
    using split_on_no_sep by blast
  show "clean_state initial_scan" by (simp add: clean_state_def initial_scan_def)
qed

text \<open>An occurrence of \<open>h\<close> cannot contain a character that \<open>h\<close> does not have.\<close>

lemma sublist_sep:
  assumes "c \<notin> set h" "sublist h (a @ c # b)"
  shows "sublist h a \<or> sublist h b"
proof -
  from assms(2) obtain ps ss where eq: "a @ c # b = ps @ h @ ss"
    unfolding sublist_def by blast
  show ?thesis
  proof (cases "length ps + length h \<le> length a")
    case True
    from eq have "take (length ps + length h) (a @ c # b) = ps @ h" by simp
    with True have "take (length ps + length h) a = ps @ h" by simp
    then have "a = ps @ h @ drop (length ps + length h) a"
      by (metis append_assoc append_take_drop_id)
    then show ?thesis unfolding sublist_def by blast
  next
    case False
    have "length a < length ps"
    proof (rule ccontr)
      assume "\<not> length a < length ps"
      with False have i: "length ps \<le> length a" "length a - length ps < length h" by auto
      from eq have "(a @ c # b) ! length a = (ps @ h @ ss) ! length a" by simp
      with i have "c = h ! (length a - length ps)" by (simp add: nth_append)
      with i(2) have "c \<in> set h" by simp
      with assms(1) show False by simp
    qed
    then have "drop (Suc (length a)) (a @ c # b) = drop (Suc (length a)) (ps @ h @ ss)"
      using eq by simp
    with \<open>length a < length ps\<close> have "b = drop (Suc (length a)) ps @ h @ ss" by simp
    then show ?thesis unfolding sublist_def by blast
  qed
qed

lemma sublist_join_comma:
  assumes "CHR '','' \<notin> set h" "h \<noteq> []" "hd h \<noteq> CHR '' ''"
  shows "sublist h (join '', '' ls) \<Longrightarrow> \<exists>l\<in>set ls. sublist h l"
proof (induction "'', ''" ls rule: join.induct)
  case 1
  with assms(2) show ?case by simp
next
  case (2 x)
  then show ?case by simp
next
  case (3 x y ys)
  from "3.prems" have "sublist h (x @ CHR '','' # (CHR '' '' # join '', '' (y # ys)))" by simp
  with assms(1) have "sublist h x \<or> sublist h (CHR '' '' # join '', '' (y # ys))"
    by (rule sublist_sep)
  then show ?case
  proof
    assume "sublist h x" then show ?thesis by auto
  next
    assume "sublist h (CHR '' '' # join '', '' (y # ys))"
    then have "prefix h (CHR '' '' # join '', '' (y # ys)) \<or> sublist h (join '', '' (y # ys))"
      by (simp add: sublist_Cons_right)
    moreover have "\<not> prefix h (CHR '' '' # join '', '' (y # ys))"
      using assms(2,3) by (cases h) auto
    ultimately have "sublist h (join '', '' (y # ys))" by blast
    with "3.hyps" show ?thesis by auto
  qed
qed

text \<open>
  An occurrence of \<open>h\<close> in \<open>p @ j\<close> that is not inside \<open>p\<close> and does not straddle the
  two parts lies in \<open>j\<close>.
\<close>

lemma sublist_prefixed:
  assumes "\<not> sublist h p" "list_all (\<lambda>xs1. xs1 = [] \<or> \<not> suffix xs1 p) (prefixes h)"
    and "sublist h (p @ j)"
  shows "sublist h j"
proof -
  from assms(3) have "sublist h p \<or> sublist h j
        \<or> (\<exists>xs1 xs2. h = xs1 @ xs2 \<and> suffix xs1 p \<and> prefix xs2 j)"
    by (simp add: sublist_append)
  with assms(1) consider "sublist h j"
    | xs1 xs2 where "h = xs1 @ xs2" "suffix xs1 p" "prefix xs2 j" by blast
  then show ?thesis
  proof cases
    case 1
    then show ?thesis .
  next
    case 2
    from 2(1) have "xs1 \<in> set (prefixes h)" by (simp add: in_set_prefixes)
    with assms(2) 2(2) have "xs1 = []" by (auto simp: list_all_iff)
    with 2(1,3) have "prefix h j" by simp
    then show ?thesis by (rule prefix_imp_sublist)
  qed
qed

lemma header_facts:
  "\<forall>h\<in>set section_headers.
     CHR '','' \<notin> set h \<and> h \<noteq> [] \<and> hd h \<noteq> CHR '' ''
     \<and> \<not> sublist h ''Node labels: ''
     \<and> list_all (\<lambda>xs1. xs1 = [] \<or> \<not> suffix xs1 ''Node labels: '') (prefixes h)
     \<and> \<not> sublist h ''Relationship types: ''
     \<and> list_all (\<lambda>xs1. xs1 = [] \<or> \<not> suffix xs1 ''Relationship types: '') (prefixes h)
     \<and> \<not> sublist h ''Key relationships:''
     \<and> \<not> sublist h ''Graph schema summary not available.''
     \<and> \<not> sublist h ''Graph schema not available.''"
  by code_simp

lemma labelled_part_no_header:
  assumes p: "p = ''Node labels: '' \<or> p = ''Relationship types: ''"
    and ls: "\<forall>l\<in>set ls. \<not> has_header l"
  shows "\<not> has_header (p @ join '', '' ls)"
proof
  assume "has_header (p @ join '', '' ls)"
  then obtain h where h: "h \<in> set section_headers" and s: "sublist h (p @ join '', '' ls)"
    by (auto simp: has_header_def list_ex_iff)
  from header_facts h p have f: "CHR '','' \<notin> set h" "h \<noteq> []" "hd h \<noteq> CHR '' ''"
    "\<not> sublist h p" "list_all (\<lambda>xs1. xs1 = [] \<or> \<not> suffix xs1 p) (prefixes h)"
    by blast+
  from f(4,5) s have "sublist h (join '', '' ls)" by (rule sublist_prefixed)
  with f(1,2,3) have "\<exists>l\<in>set ls. sublist h l" by (rule sublist_join_comma)
  with h have "\<exists>l\<in>set ls. has_header l" by (auto simp: has_header_def list_ex_iff)
  with ls show False by blast
qed

lemma set_join: "set (join sep ls) \<subseteq> set sep \<union> \<Union> (set ` set ls)"
  by (induction sep ls rule: join.induct) auto

lemma labelled_part_no_newline:
  assumes p: "p = ''Node labels: '' \<or> p = ''Relationship types: ''"
    and ls: "\<forall>l\<in>set ls. CHR 0x0A \<notin> set l"
  shows "CHR 0x0A \<notin> set (p @ join '', '' ls)"
proof -
  have "CHR 0x0A \<notin> set (join '', '' ls)"
    using set_join [of "'', ''" ls] ls by auto
  moreover from p have "CHR 0x0A \<notin> set p" by auto
  ultimately show ?thesis by simp
qed

lemma labelled_part_clean:
  assumes "p = ''Node labels: '' \<or> p = ''Relationship types: ''" "\<forall>l\<in>set ls. clean l"
  shows "clean (p @ join '', '' ls)"
  unfolding clean_def
  using labelled_part_no_header [OF assms(1), of ls] labelled_part_no_newline [OF assms(1), of ls]
    assms(2)
  by (simp add: clean_def)

text \<open>The lines of parts joined by line breaks are lines of the parts.\<close>

lemma lines_join:
  "l \<in> set (split_on c (join [c] xs)) \<Longrightarrow> l = [] \<or> (\<exists>x\<in>set xs. l \<in> set (split_on c x))"
proof (induction "[c]" xs rule: join.induct)
  case 1
  then show ?case by simp
next
  case (2 x)
  then show ?case by simp
next
  case (3 x y ys)
  from "3.prems" have "l \<in> set (split_on c x) \<or> l \<in> set (split_on c (join [c] (y # ys)))"
    by (simp add: split_on_append_sep)
  with "3.hyps" show ?case by auto
qed

lemma clean_lines: "clean x \<Longrightarrow> l \<in> set (split_on (CHR 0x0A) x) \<Longrightarrow> clean l"
  by (simp add: clean_def split_on_none)

lemma clean_Nil: "clean []"
  by (simp add: clean_def has_header_def section_headers_def)

lemma key_part_lines:
  assumes rs: "\<forall>r\<in>set rs. clean r"
    and l: "l \<in> set (split_on (CHR 0x0A) (''Key relationships:'' @ newline @ join newline rs))"
  shows "clean l"
proof -
  from l have "l \<in> set (split_on (CHR 0x0A) ''Key relationships:'')
                \<or> l \<in> set (split_on (CHR 0x0A) (join [CHR 0x0A] rs))"
    by (simp add: newline_def split_on_append_sep)
  then show ?thesis
  proof
    assume "l \<in> set (split_on (CHR 0x0A) ''Key relationships:'')"
    then have "l = ''Key relationships:''" by (simp add: split_on_none)
    moreover have "\<not> has_header ''Key relationships:''"
      using header_facts by (auto simp: has_header_def list_ex_iff)
    ultimately show ?thesis by (simp add: clean_def)
  next
    assume "l \<in> set (split_on (CHR 0x0A) (join [CHR 0x0A] rs))"
    then have "l = [] \<or> (\<exists>r\<in>set rs. l \<in> set (split_on (CHR 0x0A) r))" by (rule lines_join)
    with rs show ?thesis using clean_Nil clean_lines by blast
  qed
qed

lemma summary_parts_lines:
  assumes "clean_state st" "x \<in> set (summary_parts st)" "l \<in> set (split_on (CHR 0x0A) x)"
  shows "clean l"
proof -
  from assms(1) have nl: "\<forall>l\<in>set (sort (remdups (node_labels st))). clean l"
    and rt: "\<forall>l\<in>set (sort (remdups (rel_types st))). clean l"
    and rs: "\<forall>l\<in>set (take 10 (relationships st)). clean l"
    by (auto simp: clean_state_def dest: in_set_takeD)
  from assms(2) consider
      "x = ''Node labels: '' @ join '', '' (sort (remdups (node_labels st)))"
    | "x = ''Relationship types: '' @ join '', '' (sort (remdups (rel_types st)))"
    | "x = ''Key relationships:'' @ newline @ join newline (take 10 (relationships st))"
    by (auto simp: summary_parts_def split: if_splits)
  then show ?thesis
  proof cases
    case 1
    have "clean x" unfolding 1 by (rule labelled_part_clean) (simp_all add: nl)
    then show ?thesis using assms(3) by (rule clean_lines)
  next
    case 2
    have "clean x" unfolding 2 by (rule labelled_part_clean) (simp_all add: rt)
    then show ?thesis using assms(3) by (rule clean_lines)
  next
    case 3
    from rs assms(3) show ?thesis unfolding 3 by (rule key_part_lines)
  qed
qed

lemma no_header_scan:
  "\<forall>line\<in>set ls. \<not> has_header line \<Longrightarrow> foldl scan_line initial_scan ls = initial_scan"
proof (induction ls)
  case Nil
  then show ?case by simp
next
  case (Cons l ls)
  then have "\<not> has_header l" by simp
  then have "scan_line initial_scan l = initial_scan"
    by (simp add: scan_line_no_header initial_scan_def)
  with Cons show ?case by simp
qed

lemma summarize_no_header:
  assumes "s \<noteq> []" "s \<noteq> ''Graph schema not available.''"
    and "\<forall>line\<in>set (split_on (CHR 0x0A) s). \<not> has_header line"
  shows "summarize_schema_for_tool_selection s = ''Graph schema summary not available.''"
proof -
  from assms(3) have "foldl scan_line initial_scan (split_on (CHR 0x0A) s) = initial_scan"
    by (rule no_header_scan)
  moreover have "summary_parts initial_scan = []"
    by (simp add: summary_parts_def initial_scan_def)
  ultimately show ?thesis
    using assms(1,2) by (simp add: summarize_schema_for_tool_selection_def)
qed

lemma digest_lines:
  assumes "l \<in> set (split_on (CHR 0x0A) (summarize_schema_for_tool_selection s))"
  shows "\<not> has_header l"
proof -
  let ?st = "foldl scan_line initial_scan (split_on (CHR 0x0A) s)"
  have na: "\<not> has_header ''Graph schema not available.''"
    and sna: "\<not> has_header ''Graph schema summary not available.''"
    using header_facts by (auto simp: has_header_def list_ex_iff)
  consider "s = []" | "s = ''Graph schema not available.''"
    | "s \<noteq> []" "s \<noteq> ''Graph schema not available.''" "summary_parts ?st = []"
    | "s \<noteq> []" "s \<noteq> ''Graph schema not available.''" "summary_parts ?st \<noteq> []"
    by blast
  then show ?thesis
  proof cases
    case 1
    with assms have "l = []" by (simp add: summarize_schema_for_tool_selection_def)
    with clean_Nil show ?thesis by (simp add: clean_def)
  next
    case 2
    with assms have "l = ''Graph schema not available.''"
      by (simp add: summarize_schema_for_tool_selection_def)
    with na show ?thesis by simp
  next
    case 3
    with assms have "l = ''Graph schema summary not available.''"
      by (simp add: summarize_schema_for_tool_selection_def Let_def)
    with sna show ?thesis by simp
  next
    case 4
    with assms have "l \<in> set (split_on (CHR 0x0A) (join [CHR 0x0A] (summary_parts ?st)))"
      by (simp add: summarize_schema_for_tool_selection_def Let_def newline_def)
    then have "l = [] \<or> (\<exists>x\<in>set (summary_parts ?st). l \<in> set (split_on (CHR 0x0A) x))"
      by (rule lines_join)
    then have "clean l"
      using clean_Nil summary_parts_lines [OF scanned_clean [of s]] by blast
    then show ?thesis by (simp add: clean_def)
  qed
qed

lemma summary_part_head:
  "x \<in> set (summary_parts st) \<Longrightarrow> x \<noteq> [] \<and> hd x \<noteq> CHR ''G''"
  by (auto simp: summary_parts_def split: if_splits)

lemma join_head: "p \<noteq> [] \<Longrightarrow> join sep (p # ps) \<noteq> [] \<and> hd (join sep (p # ps)) = hd p"
  by (cases ps) simp_all

lemma digest_not_input:
  assumes "s \<noteq> []" "s \<noteq> ''Graph schema not available.''"
  shows "summarize_schema_for_tool_selection s \<noteq> []
         \<and> summarize_schema_for_tool_selection s \<noteq> ''Graph schema not available.''"
proof (cases "summary_parts (foldl scan_line initial_scan (split_on (CHR 0x0A) s))")
  case Nil
  with assms show ?thesis by (simp add: summarize_schema_for_tool_selection_def)
next
  case (Cons p ps)
  then have "p \<in> set (summary_parts (foldl scan_line initial_scan (split_on (CHR 0x0A) s)))"
    by simp
  then have "p \<noteq> [] \<and> hd p \<noteq> CHR ''G''" by (rule summary_part_head)
  with join_head [of p newline ps]
  have "join newline (p # ps) \<noteq> [] \<and> hd (join newline (p # ps)) \<noteq> CHR ''G''" by simp
  then have "join newline (p # ps) \<noteq> [] \<and> join newline (p # ps) \<noteq> ''Graph schema not available.''"
    by auto
  with assms Cons show ?thesis by (simp add: summarize_schema_for_tool_selection_def)
qed

text \<open>
  Claim C8. The summarizer returns the empty input and the "not available" sentinel
  unchanged; on any other input in which no line holds one of the three section headers
  it returns the "summary not available" sentinel; and no line of anything it returns
  holds a section header, so that summarizing one of its own digests again yields that
  sentinel.
\<close>

theorem C8_schema_summarizer:
  "summarize_schema_for_tool_selection [] = []
   \<and> summarize_schema_for_tool_selection ''Graph schema not available.''
       = ''Graph schema not available.''
   \<and> (s \<noteq> [] \<and> s \<noteq> ''Graph schema not available.''
       \<and> (\<forall>line\<in>set (split_on (CHR 0x0A) s). \<not> has_header line) \<longrightarrow>
         summarize_schema_for_tool_selection s = ''Graph schema summary not available.'')
   \<and> (\<forall>line\<in>set (split_on (CHR 0x0A) (summarize_schema_for_tool_selection s)).
         \<not> has_header line)
   \<and> (s \<noteq> [] \<and> s \<noteq> ''Graph schema not available.'' \<longrightarrow>
         summarize_schema_for_tool_selection (summarize_schema_for_tool_selection s)
           = ''Graph schema summary not available.'')"
proof (intro conjI)
  show "summarize_schema_for_tool_selection [] = []"
    by (simp add: summarize_schema_for_tool_selection_def)
next
  show "summarize_schema_for_tool_selection ''Graph schema not available.''
       = ''Graph schema not available.''"
    by (simp add: summarize_schema_for_tool_selection_def)
next
  show "s \<noteq> [] \<and> s \<noteq> ''Graph schema not available.''
       \<and> (\<forall>line\<in>set (split_on (CHR 0x0A) s). \<not> has_header line) \<longrightarrow>
         summarize_schema_for_tool_selection s = ''Graph schema summary not available.''"
    using summarize_no_header [of s] by blast
next
  show d: "\<forall>line\<in>set (split_on (CHR 0x0A) (summarize_schema_for_tool_selection s)).
         \<not> has_header line"
    using digest_lines [of _ s] by blast
  show "s \<noteq> [] \<and> s \<noteq> ''Graph schema not available.'' \<longrightarrow>
         summarize_schema_for_tool_selection (summarize_schema_for_tool_selection s)
           = ''Graph schema summary not available.''"
  proof
    assume "s \<noteq> [] \<and> s \<noteq> ''Graph schema not available.''"
    then have "summarize_schema_for_tool_selection s \<noteq> []
         \<and> summarize_schema_for_tool_selection s \<noteq> ''Graph schema not available.''"
      using digest_not_input [of s] by blast
    with d show "summarize_schema_for_tool_selection (summarize_schema_for_tool_selection s)
           = ''Graph schema summary not available.''"
      using summarize_no_header [of "summarize_schema_for_tool_selection s"] by blast
  qed
qed

theorem C8_schema_summarizer_witness:
  "summarize_schema_for_tool_selection ''Nodes: Person, Area''
     = ''Graph schema summary not available.''
   \<and> summarize_schema_for_tool_selection
       (''Node properties:'' @ newline @ '':`Person` {name: STRING}'' @ newline
        @ ''The relationships:'' @ newline @ ''(:Person)-[:KNOWS]->(:Person)'')
     = ''Node labels: Person'' @ newline @ ''Key relationships:'' @ newline
       @ ''(:Person)-[:KNOWS]->(:Person)''
   \<and> summarize_schema_for_tool_selection
       (summarize_schema_for_tool_selection
          (''Node properties:'' @ newline @ '':`Person` {name: STRING}'' @ newline
           @ ''The relationships:'' @ newline @ ''(:Person)-[:KNOWS]->(:Person)''))
     = ''Graph schema summary not available.''"
proof -
  let ?s = "''Node properties:'' @ newline @ '':`Person` {name: STRING}'' @ newline
        @ ''The relationships:'' @ newline @ ''(:Person)-[:KNOWS]->(:Person)''"
  have h: "\<forall>line\<in>set (split_on (CHR 0x0A) ''Nodes: Person, Area''). \<not> has_header line"
    by code_simp
  have n1: "''Nodes: Person, Area'' \<noteq> [] \<and> ''Nodes: Person, Area'' \<noteq> ''Graph schema not available.''"
    by simp
  have n2: "?s \<noteq> [] \<and> ?s \<noteq> ''Graph schema not available.''"
    by (simp add: newline_def)
  have w1: "summarize_schema_for_tool_selection ''Nodes: Person, Area''
     = ''Graph schema summary not available.''"
    using C8_schema_summarizer [of "''Nodes: Person, Area''"] h n1 by blast
  have w2: "summarize_schema_for_tool_selection ?s
     = ''Node labels: Person'' @ newline @ ''Key relationships:'' @ newline
       @ ''(:Person)-[:KNOWS]->(:Person)''"
    by code_simp
  have w3: "summarize_schema_for_tool_selection (summarize_schema_for_tool_selection ?s)
     = ''Graph schema summary not available.''"
    using C8_schema_summarizer [of ?s] n2 by blast
  from w1 w2 w3 show ?thesis by (intro conjI)
qed

section \<open>Dictionaries as objects: proofs\<close>

lemma dict_new_alloc: "dict_new e st = (next_addr st, alloc st e)"
  by (simp add: dict_new_def alloc_def)

lemma dict_copy_alloc: "dict_copy a st = (next_addr st, alloc st (deref st a))"
  by (simp add: dict_copy_def dict_new_alloc)

lemma deref_alloc:
  "deref (alloc st e) a = (if a = next_addr st then e else deref st a)"
  by (simp add: deref_def alloc_def)

lemma next_alloc: "next_addr (alloc st e) = Suc (next_addr st)"
  by (simp add: alloc_def)

lemma cells_alloc: "cells (alloc st e) = (cells st)(next_addr st \<mapsto> e)"
  by (simp add: alloc_def)

lemma setitem_alloc:
  "dict_setitem (next_addr st) k v (alloc st e) = alloc st (e(k \<mapsto> v))"
  by (simp add: dict_setitem_def deref_alloc) (simp add: alloc_def)

lemma setdefault_alloc:
  "dict_setdefault (next_addr st) k v (alloc st e) = alloc st (setdefault e k v)"
  by (simp add: dict_setdefault_def setdefault_def deref_alloc setitem_alloc)

lemma update_alloc:
  "ov \<noteq> next_addr st \<Longrightarrow>
     dict_update (next_addr st) ov (alloc st e) = alloc st (e ++ deref st ov)"
  by (simp add: dict_update_def deref_alloc) (simp add: alloc_def)

text \<open>What \<open>_prepare_inputs\<close> does to the store, in one step.\<close>

lemma prepare_inputs_store_eq:
  assumes "ov \<noteq> next_addr st"
  shows "prepare_inputs_store agent d question (Some ov) st =
     (next_addr st,
      alloc st (prepare_inputs agent (config\<lparr>defaults := deref st d\<rparr>) question
                  (Some (deref st ov))))"
proof -
  let ?n = "next_addr st"
  let ?i1 = "if ''nodeIdentifierProperty'' \<notin> dom (deref st d)
             then (deref st d)(''nodeIdentifierProperty'' \<mapsto>
                    PStr (default_identifier_property agent))
             else deref st d"
  let ?geos = "extract_geo_filters question"
  let ?i2 = "if ?geos \<noteq> []
             then setdefault
                    (setdefault ?i1 ''nodeLabels'' (PList [PStr ''Area'', PStr ''Municipality'']))
                    ''filterNames'' (PList (map PStr ?geos))
             else ?i1"
  let ?i3 = "if deref st ov \<noteq> Map.empty then ?i2 ++ deref st ov else ?i2"
  have s2: "(if ''nodeIdentifierProperty'' \<notin> dom (deref (alloc st (deref st d)) ?n)
             then dict_setitem ?n ''nodeIdentifierProperty''
                    (PStr (default_identifier_property agent)) (alloc st (deref st d))
             else alloc st (deref st d)) = alloc st ?i1"
    by (simp only: deref_alloc setitem_alloc if_True split: if_splits) simp
  have s3: "(if ?geos \<noteq> []
             then dict_setdefault ?n ''filterNames'' (PList (map PStr ?geos))
                    (dict_setdefault ?n ''nodeLabels''
                       (PList [PStr ''Area'', PStr ''Municipality'']) (alloc st ?i1))
             else alloc st ?i1) = alloc st ?i2"
    by (simp only: setdefault_alloc) simp
  have s4: "(if deref (alloc st ?i2) ov \<noteq> Map.empty then dict_update ?n ov (alloc st ?i2)
             else alloc st ?i2) = alloc st ?i3"
    using assms by (simp only: deref_alloc update_alloc [OF assms]) simp
  have p: "prepare_inputs agent (config\<lparr>defaults := deref st d\<rparr>) question (Some (deref st ov))
             = ?i3"
    by (simp add: prepare_inputs_def Let_def)
  show ?thesis
    unfolding prepare_inputs_store_def dict_copy_alloc Let_def prod.case option.case s2 s3 s4 p
    by (rule refl)
qed

text \<open>Lines 98 and 126-130 of \<open>run\<close> on the store, in one step.\<close>

lemma run_inputs_store_eq:
  assumes ok: "store_ok st" and d: "d \<in> dom (cells st)"
    and sel: "\<forall>r\<in>set_option sel. r \<in> dom (cells st)"
    and inp: "\<forall>g\<in>set_option inp. g \<in> dom (cells st)"
  shows "run_inputs_store agent d question sel inp st =
     (Suc (Suc (next_addr st)),
      alloc
        (alloc (alloc st Map.empty)
           (combined_inputs (case sel of Some r \<Rightarrow> deref st r | None \<Rightarrow> Map.empty)
              (map_option (deref st) inp)))
        (prepare_inputs agent (config\<lparr>defaults := deref st d\<rparr>) question
           (Some (combined_inputs (case sel of Some r \<Rightarrow> deref st r | None \<Rightarrow> Map.empty)
              (map_option (deref st) inp)))))"
proof -
  let ?n = "next_addr st"
  let ?st0 = "alloc st Map.empty"
  let ?llm = "case sel of Some r \<Rightarrow> r | None \<Rightarrow> ?n"
  let ?L = "case sel of Some r \<Rightarrow> deref st r | None \<Rightarrow> Map.empty"
  let ?C = "combined_inputs ?L (map_option (deref st) inp)"
  have lt: "a < ?n" if "a \<in> dom (cells st)" for a
    using ok that by (simp add: store_ok_def)
  have dn: "d \<noteq> ?n" "d \<noteq> Suc ?n" using lt [OF d] by simp_all
  have seln: "r \<noteq> ?n" if "sel = Some r" for r
    using lt [of r] sel that by auto
  have inpn: "g \<noteq> ?n \<and> g \<noteq> Suc ?n" if "inp = Some g" for g
    using lt [of g] inp that by auto
  have n0: "next_addr ?st0 = Suc ?n" by (rule next_alloc)
  have l: "deref ?st0 ?llm = ?L"
    using seln by (cases sel) (simp_all add: deref_alloc)
  have c: "dict_copy ?llm ?st0 = (Suc ?n, alloc ?st0 ?L)"
    by (simp add: dict_copy_alloc n0 l)
  have s2: "(case inp of
               None \<Rightarrow> alloc ?st0 ?L
             | Some given \<Rightarrow>
                 if deref (alloc ?st0 ?L) given \<noteq> Map.empty
                 then dict_update (Suc ?n) given (alloc ?st0 ?L) else alloc ?st0 ?L)
            = alloc ?st0 ?C"
  proof (cases inp)
    case None
    then show ?thesis by (simp add: combined_inputs_def)
  next
    case (Some g)
    from inpn [OF Some] have g: "g \<noteq> ?n" "g \<noteq> next_addr ?st0" by (simp_all add: n0)
    then have dg: "deref (alloc ?st0 ?L) g = deref st g" "deref ?st0 g = deref st g"
      by (simp_all add: deref_alloc n0)
    from update_alloc [OF g(2), of ?L]
    have "dict_update (Suc ?n) g (alloc ?st0 ?L) = alloc ?st0 (?L ++ deref st g)"
      by (simp add: n0 dg)
    with Some dg show ?thesis by (simp add: combined_inputs_def)
  qed
  have n2: "next_addr (alloc ?st0 ?C) = Suc (Suc ?n)" by (simp add: next_alloc)
  have ne: "Suc ?n \<noteq> next_addr (alloc ?st0 ?C)" by (simp add: n2)
  have dd: "deref (alloc ?st0 ?C) d = deref st d"
    using dn by (simp add: deref_alloc n0)
  have dc: "deref (alloc ?st0 ?C) (Suc ?n) = ?C"
    by (simp add: deref_alloc n0)
  show ?thesis
    unfolding run_inputs_store_def dict_new_alloc Let_def prod.case c s2
      prepare_inputs_store_eq [OF ne, of agent d question config] n2 dd dc
    by (rule refl)
qed

lemma store_ok_iff: "store_ok st \<longleftrightarrow> (\<forall>a y. cells st a = Some y \<longrightarrow> a < next_addr st)"
  unfolding store_ok_def by blast

lemma store_ok_alloc: "store_ok st \<Longrightarrow> store_ok (alloc st e)"
  unfolding store_ok_iff by (simp add: alloc_def less_SucI)

lemma frame_alloc: "store_ok st \<Longrightarrow> a \<in> dom (cells st) \<Longrightarrow> cells (alloc st e) a = cells st a"
  unfolding store_ok_iff by (auto simp: alloc_def)

lemma dom_alloc: "dom (cells (alloc st e)) = insert (next_addr st) (dom (cells st))"
  by (simp add: alloc_def)

lemma deref_frame: "cells st' a = cells st a \<Longrightarrow> deref st' a = deref st a"
  by (simp add: deref_def)

text \<open>
  Claim C10. The dictionary operations of \<open>run\<close> write to three objects only, all of
  them created by the call: the empty dictionary of line 98, the copy of the selector's
  inputs and the copy of the defaults. Every dictionary that existed before the call,
  among them the defaults of every tool config, the selector's inputs and the caller's
  inputs, holds afterwards exactly what it held before, also when some of them are one and
  the same object. The mapping built is the one of \<open>_prepare_inputs\<close> on the contents read
  at the start, and a second call builds the same mapping again.
\<close>

theorem C10_inputs_not_mutated:
  "store_ok st \<and> d \<in> dom (cells st) \<and> (\<forall>r\<in>set_option sel. r \<in> dom (cells st))
   \<and> (\<forall>g\<in>set_option inp. g \<in> dom (cells st)) \<longrightarrow>
     (\<forall>a\<in>dom (cells st). cells (snd (run_inputs_store agent d question sel inp st)) a = cells st a)
     \<and> fst (run_inputs_store agent d question sel inp st) \<notin> dom (cells st)
     \<and> deref (snd (run_inputs_store agent d question sel inp st))
          (fst (run_inputs_store agent d question sel inp st))
        = prepare_inputs agent (config\<lparr>defaults := deref st d\<rparr>) question
            (Some (combined_inputs (case sel of Some r \<Rightarrow> deref st r | None \<Rightarrow> Map.empty)
               (map_option (deref st) inp)))
     \<and> deref (snd (run_inputs_store agent d question sel inp
                      (snd (run_inputs_store agent d question sel inp st))))
          (fst (run_inputs_store agent d question sel inp
                  (snd (run_inputs_store agent d question sel inp st))))
        = deref (snd (run_inputs_store agent d question sel inp st))
            (fst (run_inputs_store agent d question sel inp st))"
proof
  assume h: "store_ok st \<and> d \<in> dom (cells st) \<and> (\<forall>r\<in>set_option sel. r \<in> dom (cells st))
   \<and> (\<forall>g\<in>set_option inp. g \<in> dom (cells st))"
  then have ok: "store_ok st" and d: "d \<in> dom (cells st)"
    and sel: "\<forall>r\<in>set_option sel. r \<in> dom (cells st)"
    and inp: "\<forall>g\<in>set_option inp. g \<in> dom (cells st)"
    by blast+
  let ?L = "\<lambda>s. case sel of Some r \<Rightarrow> deref s r | None \<Rightarrow> Map.empty"
  let ?C = "\<lambda>s. combined_inputs (?L s) (map_option (deref s) inp)"
  let ?P = "\<lambda>s. prepare_inputs agent (config\<lparr>defaults := deref s d\<rparr>) question (Some (?C s))"
  let ?s1 = "alloc st Map.empty"
  let ?s2 = "alloc ?s1 (?C st)"
  let ?s3 = "alloc ?s2 (?P st)"
  let ?R = "run_inputs_store agent d question sel inp st"
  have R: "?R = (Suc (Suc (next_addr st)), ?s3)"
    using ok d sel inp by (rule run_inputs_store_eq)
  have ok1: "store_ok ?s1" using ok by (rule store_ok_alloc)
  have ok2: "store_ok ?s2" using ok1 by (rule store_ok_alloc)
  have ok3: "store_ok ?s3" using ok2 by (rule store_ok_alloc)
  have sub: "dom (cells st) \<subseteq> dom (cells ?s1)" "dom (cells ?s1) \<subseteq> dom (cells ?s2)"
    "dom (cells ?s2) \<subseteq> dom (cells ?s3)"
    by (auto simp: dom_alloc)
  have frame: "cells ?s3 a = cells st a" if a: "a \<in> dom (cells st)" for a
  proof -
    from a sub have a1: "a \<in> dom (cells ?s1)" and a2: "a \<in> dom (cells ?s2)" by blast+
    have "cells ?s3 a = cells ?s2 a" using ok2 a2 by (rule frame_alloc)
    also have "\<dots> = cells ?s1 a" using ok1 a1 by (rule frame_alloc)
    also have "\<dots> = cells st a" using ok a by (rule frame_alloc)
    finally show ?thesis .
  qed
  have fresh: "Suc (Suc (next_addr st)) \<notin> dom (cells st)"
    using ok unfolding store_ok_iff by fastforce
  have res: "deref ?s3 (Suc (Suc (next_addr st))) = ?P st"
    by (simp add: deref_alloc next_alloc)
  have d3: "d \<in> dom (cells ?s3)" using d sub by blast
  have sel3: "\<forall>r\<in>set_option sel. r \<in> dom (cells ?s3)" using sel sub by blast
  have inp3: "\<forall>g\<in>set_option inp. g \<in> dom (cells ?s3)" using inp sub by blast
  have R2: "run_inputs_store agent d question sel inp ?s3 =
      (Suc (Suc (next_addr ?s3)),
       alloc (alloc (alloc ?s3 Map.empty) (?C ?s3)) (?P ?s3))"
    using ok3 d3 sel3 inp3 by (rule run_inputs_store_eq)
  have dd: "deref ?s3 d = deref st d" using frame [OF d] by (rule deref_frame)
  have dl: "?L ?s3 = ?L st"
  proof (cases sel)
    case None
    then show ?thesis by simp
  next
    case (Some r)
    with sel have "r \<in> dom (cells st)" by simp
    then have "deref ?s3 r = deref st r" using frame deref_frame by blast
    with Some show ?thesis by simp
  qed
  have di: "map_option (deref ?s3) inp = map_option (deref st) inp"
  proof (cases inp)
    case None
    then show ?thesis by simp
  next
    case (Some g)
    with inp have "g \<in> dom (cells st)" by simp
    then have "deref ?s3 g = deref st g" using frame deref_frame by blast
    with Some show ?thesis by simp
  qed
  have same: "?P ?s3 = ?P st" by (simp only: dd dl di)
  have res2: "deref (alloc (alloc (alloc ?s3 Map.empty) (?C ?s3)) (?P ?s3))
                (Suc (Suc (next_addr ?s3))) = ?P ?s3"
    by (simp add: deref_alloc next_alloc)
  have c1: "\<forall>a\<in>dom (cells st). cells (snd ?R) a = cells st a"
    unfolding R snd_conv using frame by blast
  have c2: "fst ?R \<notin> dom (cells st)"
    unfolding R fst_conv by (rule fresh)
  have c3: "deref (snd ?R) (fst ?R) = ?P st"
    unfolding R fst_conv snd_conv by (rule res)
  have "deref (snd (run_inputs_store agent d question sel inp ?s3))
          (fst (run_inputs_store agent d question sel inp ?s3)) = ?P ?s3"
    unfolding R2 fst_conv snd_conv by (rule res2)
  also have "\<dots> = ?P st" by (rule same)
  also have "\<dots> = deref ?s3 (Suc (Suc (next_addr st)))" by (rule res [symmetric])
  finally have c4: "deref (snd (run_inputs_store agent d question sel inp (snd ?R)))
          (fst (run_inputs_store agent d question sel inp (snd ?R)))
        = deref (snd ?R) (fst ?R)"
    unfolding R fst_conv snd_conv .
  from c1 c2 c3 c4
  show "(\<forall>a\<in>dom (cells st). cells (snd ?R) a = cells st a)
     \<and> fst ?R \<notin> dom (cells st)
     \<and> deref (snd ?R) (fst ?R) = ?P st
     \<and> deref (snd (run_inputs_store agent d question sel inp (snd ?R)))
          (fst (run_inputs_store agent d question sel inp (snd ?R)))
        = deref (snd ?R) (fst ?R)"
    by (intro conjI)
qed

text \<open>
  Three dictionaries: the defaults \<open>{a:1}\<close> at address 0, the selector's inputs
  \<open>{a:2,b:2}\<close> at 1 and the caller's inputs \<open>{b:3}\<close> at 2. After the call they are as
  they were, and the new dictionary holds the merged arguments.
\<close>

theorem C10_inputs_not_mutated_witness:
  "cells (snd (run_inputs_store
           \<lparr>tool_configs =
              [(''t'', \<lparr>name = ''t'', description = '''', keyword_list = [],
                        defaults = [''a'' \<mapsto> PInt 1], summary_builder = None\<rparr>)],
            default_identifier_property = ''name'', allowed_tool_names = {},
            use_llm_selector = True\<rparr>
           0 ''Who ranks first?'' (Some 1) (Some 2)
           \<lparr>cells = [0 \<mapsto> [''a'' \<mapsto> PInt 1], 1 \<mapsto> [''a'' \<mapsto> PInt 2, ''b'' \<mapsto> PInt 2],
                     2 \<mapsto> [''b'' \<mapsto> PInt 3]],
             next_addr = 3\<rparr>)) 0
     = Some [''a'' \<mapsto> PInt 1]
   \<and> cells (snd (run_inputs_store
           \<lparr>tool_configs =
              [(''t'', \<lparr>name = ''t'', description = '''', keyword_list = [],
                        defaults = [''a'' \<mapsto> PInt 1], summary_builder = None\<rparr>)],
            default_identifier_property = ''name'', allowed_tool_names = {},
            use_llm_selector = True\<rparr>
           0 ''Who ranks first?'' (Some 1) (Some 2)
           \<lparr>cells = [0 \<mapsto> [''a'' \<mapsto> PInt 1], 1 \<mapsto> [''a'' \<mapsto> PInt 2, ''b'' \<mapsto> PInt 2],
                     2 \<mapsto> [''b'' \<mapsto> PInt 3]],
             next_addr = 3\<rparr>)) 2
     = Some [''b'' \<mapsto> PInt 3]
   \<and> deref (snd (run_inputs_store
           \<lparr>tool_configs =
              [(''t'', \<lparr>name = ''t'', description = '''', keyword_list = [],
                        defaults = [''a'' \<mapsto> PInt 1], summary_builder = None\<rparr>)],
            default_identifier_property = ''name'', allowed_tool_names = {},
            use_llm_selector = True\<rparr>
           0 ''Who ranks first?'' (Some 1) (Some 2)
           \<lparr>cells = [0 \<mapsto> [''a'' \<mapsto> PInt 1], 1 \<mapsto> [''a'' \<mapsto> PInt 2, ''b'' \<mapsto> PInt 2],
                     2 \<mapsto> [''b'' \<mapsto> PInt 3]],
             next_addr = 3\<rparr>))
        (fst (run_inputs_store
           \<lparr>tool_configs =
              [(''t'', \<lparr>name = ''t'', description = '''', keyword_list = [],
                        defaults = [''a'' \<mapsto> PInt 1], summary_builder = None\<rparr>)],
            default_identifier_property = ''name'', allowed_tool_names = {},
            use_llm_selector = True\<rparr>
           0 ''Who ranks first?'' (Some 1) (Some 2)
           \<lparr>cells = [0 \<mapsto> [''a'' \<mapsto> PInt 1], 1 \<mapsto> [''a'' \<mapsto> PInt 2, ''b'' \<mapsto> PInt 2],
                     2 \<mapsto> [''b'' \<mapsto> PInt 3]],
             next_addr = 3\<rparr>))
     = [''a'' \<mapsto> PInt 2, ''b'' \<mapsto> PInt 3, ''nodeIdentifierProperty'' \<mapsto> PStr ''name'']"
proof -
  let ?c = "\<lparr>name = ''t'', description = '''', keyword_list = [],
                        defaults = [''a'' \<mapsto> PInt 1], summary_builder = None\<rparr>"
  let ?A = "\<lparr>tool_configs = [(''t'', ?c)],
            default_identifier_property = ''name'', allowed_tool_names = {},
            use_llm_selector = True\<rparr>"
  let ?st = "\<lparr>cells = [0 \<mapsto> [''a'' \<mapsto> PInt 1], 1 \<mapsto> [''a'' \<mapsto> PInt 2, ''b'' \<mapsto> PInt 2],
                     2 \<mapsto> [''b'' \<mapsto> PInt 3]],
             next_addr = (3::nat)\<rparr>"
  let ?R = "run_inputs_store ?A 0 ''Who ranks first?'' (Some 1) (Some 2) ?st"
  have geo: "extract_geo_filters ''Who ranks first?'' = []" by code_simp
  have ok: "store_ok ?st" by (simp add: store_ok_def)
  have d: "0 \<in> dom (cells ?st)" by simp
  have sel: "\<forall>r\<in>set_option (Some 1). r \<in> dom (cells ?st)" by simp
  have inp: "\<forall>g\<in>set_option (Some 2). g \<in> dom (cells ?st)" by simp
  from C10_inputs_not_mutated
    [where st = ?st and d = 0 and sel = "Some 1" and inp = "Some 2" and agent = ?A
       and question = "''Who ranks first?''" and config = ?c]
    ok d sel inp
  have frame: "\<forall>a\<in>dom (cells ?st). cells (snd ?R) a = cells ?st a"
    and res: "deref (snd ?R) (fst ?R)
        = prepare_inputs ?A (?c\<lparr>defaults := deref ?st 0\<rparr>) ''Who ranks first?''
            (Some (combined_inputs (case Some 1 of Some r \<Rightarrow> deref ?st r | None \<Rightarrow> Map.empty)
               (map_option (deref ?st) (Some 2))))"
    by blast+
  from frame have w1: "cells (snd ?R) 0 = Some [''a'' \<mapsto> PInt 1]"
    and w2: "cells (snd ?R) 2 = Some [''b'' \<mapsto> PInt 3]"
    by simp_all
  have w3: "deref (snd ?R) (fst ?R)
      = [''a'' \<mapsto> PInt 2, ''b'' \<mapsto> PInt 3, ''nodeIdentifierProperty'' \<mapsto> PStr ''name'']"
    unfolding res
    by (rule ext) (simp add: prepare_inputs_lookup combined_inputs_lookup geo deref_def)
  from w1 w2 w3 show ?thesis by (intro conjI)
qed

end
